theory Spec2Isabelle
  imports Complex_Main "HOL-Library.Multiset"
begin

section \<open>Values, column types and dictionaries\<close>

text \<open>
  The column types of \<^verbatim>\<open>class DataType(Enum)\<close>. The \<^verbatim>\<open>.value\<close> of a member is its
  own name as text. The member \<^verbatim>\<open>CHAR\<close> is written \<open>CHAR'\<close>, the bare word being
  reserved syntax of HOL.
\<close>

datatype DataType = INTEGER | FLOAT | DATE | TIME | CHAR' | BINARY

fun DataType_value :: "DataType \<Rightarrow> string" where
  "DataType_value INTEGER = ''INTEGER''"
| "DataType_value FLOAT = ''FLOAT''"
| "DataType_value DATE = ''DATE''"
| "DataType_value TIME = ''TIME''"
| "DataType_value CHAR' = ''CHAR''"
| "DataType_value BINARY = ''BINARY''"

text \<open>
  A Python \<^verbatim>\<open>float\<close> is recorded by the exact rational value of the double, or as one
  of the two infinities. \<^verbatim>\<open>float()\<close> of a digit string never gives a NaN, and the two
  zeros compare equal, so neither is kept apart here.
\<close>

datatype pyfloat = NegInf | Fin rat | PosInf

fun float_lt :: "pyfloat \<Rightarrow> pyfloat \<Rightarrow> bool" where
  "float_lt NegInf NegInf = False"
| "float_lt NegInf _ = True"
| "float_lt (Fin a) (Fin b) = (a < b)"
| "float_lt (Fin a) PosInf = True"
| "float_lt (Fin a) NegInf = False"
| "float_lt PosInf _ = False"

text \<open>
  The Python objects that a cell of a row can hold: \<^verbatim>\<open>int\<close> (unbounded), \<^verbatim>\<open>float\<close>,
  \<^verbatim>\<open>str\<close>, \<^verbatim>\<open>datetime.date\<close> (year, month, day), \<^verbatim>\<open>datetime.time\<close> (hour, minute,
  second), \<^verbatim>\<open>bytes\<close>, and \<^verbatim>\<open>None\<close>, which \<^verbatim>\<open>dict.get\<close> returns for a missing key.
  These are the objects that \<^verbatim>\<open>parse_value\<close>, \<^verbatim>\<open>json.load\<close> of a saved table and
  \<^verbatim>\<open>validate_type\<close> deal in; a \<^verbatim>\<open>bool\<close> (which Python counts as an \<^verbatim>\<open>int\<close>) and a
  \<^verbatim>\<open>datetime\<close> (which it counts as a \<^verbatim>\<open>date\<close>) are never built by the program and are
  left out, as are a time's microseconds and time zone.
\<close>

datatype pyval =
    IntV int
  | FloatV pyfloat
  | StrV string
  | DateV nat nat nat
  | TimeV nat nat nat
  | BytesV string
  | NoneV

text \<open>
  A Python \<^verbatim>\<open>dict\<close> keeps its keys in insertion order: it is an association list.
  Storing under a key that is present replaces the value where it stands; a new key goes
  to the end.
\<close>

type_synonym 'v dict = "(string \<times> 'v) list"

definition keys :: "'v dict \<Rightarrow> string list" where
  "keys d = map fst d"

definition dict_get :: "'v dict \<Rightarrow> string \<Rightarrow> 'v option" where
  "dict_get d k = map_of d k"

fun dict_set :: "'v dict \<Rightarrow> string \<Rightarrow> 'v \<Rightarrow> 'v dict" where
  "dict_set [] k v = [(k, v)]"
| "dict_set ((k', v') # d) k v =
     (if k' = k then (k, v) # d else (k', v') # dict_set d k v)"

type_synonym row = "pyval dict"

text \<open>
  The exceptions the table engine raises, each with the data its message is built from:
  \<^item> \<open>ValueError_schema\<close>: \<^verbatim>\<open>ValueError("The columns of the record do not match the schema of the table")\<close>,
    the spec's SchemaMismatch;
  \<^item> \<open>TypeError_column c ty\<close>: \<^verbatim>\<open>TypeError(f"Error {column} should be {expected_type.value}.")\<close>,
    the spec's TypeMismatch(column);
  \<^item> \<open>KeyError c\<close>: a subscript \<^verbatim>\<open>row[col]\<close> on a missing key;
  \<^item> \<open>TypeError_compare\<close>: the \<^verbatim>\<open>TypeError\<close> of \<^verbatim>\<open><\<close> between objects of unordered types.
  The statement handlers meet three more, raised by the interpreter:
  \<^item> \<open>ValueError_int_digits\<close>: the \<^verbatim>\<open>ValueError\<close> of \<^verbatim>\<open>int(text)\<close> on a text with more digits than
    the interpreter's limit (\<^verbatim>\<open>Exceeds the limit (4300 digits) for integer string conversion\<close>);
  \<^item> \<open>ValueError_int_literal\<close>: the \<^verbatim>\<open>ValueError\<close> of \<^verbatim>\<open>int(text)\<close> on a text that is no integer
    (\<^verbatim>\<open>invalid literal for int() with base 10\<close>);
  \<^item> \<open>IndexError\<close>: a subscript \<^verbatim>\<open>parts[0]\<close> on an empty list.
\<close>

datatype error =
    ValueError_schema
  | TypeError_column string DataType
  | KeyError string
  | TypeError_compare
  | ValueError_int_digits
  | ValueError_int_literal
  | IndexError

section \<open>The table engine\<close>

record Table =
  name :: string
  schema :: "DataType dict"
  rows :: "row list"

text \<open>\<^verbatim>\<open>Table.validate_type\<close>: one \<^verbatim>\<open>isinstance\<close> test per column type.\<close>

fun validate_type :: "pyval \<Rightarrow> DataType \<Rightarrow> bool" where
  "validate_type v INTEGER = (case v of IntV _ \<Rightarrow> True | _ \<Rightarrow> False)"
| "validate_type v FLOAT = (case v of FloatV _ \<Rightarrow> True | _ \<Rightarrow> False)"
| "validate_type v DATE = (case v of DateV _ _ _ \<Rightarrow> True | _ \<Rightarrow> False)"
| "validate_type v TIME = (case v of TimeV _ _ _ \<Rightarrow> True | _ \<Rightarrow> False)"
| "validate_type v CHAR' = (case v of StrV _ \<Rightarrow> True | _ \<Rightarrow> False)"
| "validate_type v BINARY = (case v of BytesV _ \<Rightarrow> True | _ \<Rightarrow> False)"

text \<open>
  \<^verbatim>\<open>Table.insert\<close>. The loop over \<^verbatim>\<open>record.items()\<close> stops at the first value that fails
  validation; \<^verbatim>\<open>self.schema[column]\<close> is a subscript, so a missing column would be a
  \<^verbatim>\<open>KeyError\<close>.
\<close>

fun check_record :: "DataType dict \<Rightarrow> (string \<times> pyval) list \<Rightarrow> error option" where
  "check_record sch [] = None"
| "check_record sch ((column, v) # items) =
     (case dict_get sch column of
        None \<Rightarrow> Some (KeyError column)
      | Some expected_type \<Rightarrow>
          if \<not> validate_type v expected_type
          then Some (TypeError_column column expected_type)
          else check_record sch items)"

definition Table_insert :: "Table \<Rightarrow> row \<Rightarrow> (error + unit) \<times> Table" where
  "Table_insert t record =
     (if set (keys record) \<noteq> set (keys (schema t)) then (Inl ValueError_schema, t)
      else case check_record (schema t) record of
             Some e \<Rightarrow> (Inl e, t)
           | None \<Rightarrow> (Inr (), t\<lparr>rows := rows t @ [record]\<rparr>))"

text \<open>
  A predicate is a Python callable or \<^verbatim>\<open>None\<close>. \<^verbatim>\<open>select\<close> and \<^verbatim>\<open>update\<close> test
  \<^verbatim>\<open>where is None or where(row)\<close>.
\<close>

type_synonym predicate = "(row \<Rightarrow> bool) option"

definition matches :: "predicate \<Rightarrow> row \<Rightarrow> bool" where
  "matches w r = (case w of None \<Rightarrow> True | Some p \<Rightarrow> p r)"

text \<open>
  \<^verbatim>\<open>Table.update\<close>. The rows are dictionaries mutated in place, so what was written
  before a \<^verbatim>\<open>raise\<close> stays written: the model returns the rows as they stand together
  with the outcome. \<open>update_row\<close> is the inner loop over \<^verbatim>\<open>updates.items()\<close>,
  \<open>update_rows\<close> the outer loop over \<^verbatim>\<open>self.rows\<close> with the running \<^verbatim>\<open>count\<close> (here \<open>cnt\<close>).
\<close>

fun update_row :: "DataType dict \<Rightarrow> (string \<times> pyval) list \<Rightarrow> row \<Rightarrow> error option \<times> row" where
  "update_row sch [] r = (None, r)"
| "update_row sch ((column, v) # items) r =
     (case dict_get sch column of
        None \<Rightarrow> update_row sch items r
      | Some expected_type \<Rightarrow>
          if \<not> validate_type v expected_type
          then (Some (TypeError_column column expected_type), r)
          else update_row sch items (dict_set r column v))"

fun update_rows ::
  "DataType dict \<Rightarrow> (string \<times> pyval) list \<Rightarrow> predicate \<Rightarrow> row list \<Rightarrow> nat
     \<Rightarrow> (error + nat) \<times> row list" where
  "update_rows sch updates w [] cnt = (Inr cnt, [])"
| "update_rows sch updates w (r # rest) cnt =
     (if matches w r then
        (case update_row sch updates r of
           (Some e, r') \<Rightarrow> (Inl e, r' # rest)
         | (None, r') \<Rightarrow>
             (case update_rows sch updates w rest (cnt + 1) of
                (res, rest') \<Rightarrow> (res, r' # rest')))
      else
        (case update_rows sch updates w rest cnt of
           (res, rest') \<Rightarrow> (res, r # rest')))"

definition Table_update :: "Table \<Rightarrow> pyval dict \<Rightarrow> predicate \<Rightarrow> (error + nat) \<times> Table" where
  "Table_update t updates w =
     (case update_rows (schema t) updates w (rows t) 0 of
        (res, rows') \<Rightarrow> (res, t\<lparr>rows := rows'\<rparr>))"

text \<open>
  \<^verbatim>\<open>Table.delete\<close>: the comprehension keeps a row when
  \<^verbatim>\<open>not (where(row) if where else False)\<close>, and the result is the difference of the two
  lengths.
\<close>

definition Table_delete :: "Table \<Rightarrow> predicate \<Rightarrow> nat \<times> Table" where
  "Table_delete t w =
     (let original_length = length (rows t);
          rows' = filter (\<lambda>r. \<not> (case w of Some p \<Rightarrow> p r | None \<Rightarrow> False)) (rows t)
      in (original_length - length rows', t\<lparr>rows := rows'\<rparr>))"

section \<open>Comparison of values\<close>

text \<open>
  \<^verbatim>\<open>==\<close> between two cell values: numbers compare by value across \<^verbatim>\<open>int\<close> and
  \<^verbatim>\<open>float\<close>, objects of two other different types are never equal, and \<^verbatim>\<open>None\<close> equals
  only \<^verbatim>\<open>None\<close>.
\<close>

fun py_eq :: "pyval \<Rightarrow> pyval \<Rightarrow> bool" where
  "py_eq (IntV a) (IntV b) = (a = b)"
| "py_eq (IntV a) (FloatV b) = (b = Fin (of_int a))"
| "py_eq (FloatV a) (IntV b) = (a = Fin (of_int b))"
| "py_eq (FloatV a) (FloatV b) = (a = b)"
| "py_eq (StrV a) (StrV b) = (a = b)"
| "py_eq (DateV y m d) (DateV y' m' d') = (y = y' \<and> m = m' \<and> d = d')"
| "py_eq (TimeV h m s) (TimeV h' m' s') = (h = h' \<and> m = m' \<and> s = s')"
| "py_eq (BytesV a) (BytesV b) = (a = b)"
| "py_eq NoneV NoneV = True"
| "py_eq _ _ = False"

text \<open>
  \<^verbatim>\<open><\<close> between two cell values; \<open>None\<close> is the \<^verbatim>\<open>TypeError\<close> of an unordered pair of
  types. Text and bytes compare by code point, position by position.
\<close>

fun str_lt :: "string \<Rightarrow> string \<Rightarrow> bool" where
  "str_lt [] [] = False"
| "str_lt [] (d # b) = True"
| "str_lt (c # a) [] = False"
| "str_lt (c # a) (d # b) = ((of_char c :: nat) < of_char d \<or> (c = d \<and> str_lt a b))"

definition triple_lt :: "nat \<Rightarrow> nat \<Rightarrow> nat \<Rightarrow> nat \<Rightarrow> nat \<Rightarrow> nat \<Rightarrow> bool" where
  "triple_lt a b c a' b' c' = (a < a' \<or> (a = a' \<and> (b < b' \<or> (b = b' \<and> c < c'))))"

fun py_lt :: "pyval \<Rightarrow> pyval \<Rightarrow> bool option" where
  "py_lt (IntV a) (IntV b) = Some (a < b)"
| "py_lt (IntV a) (FloatV b) = Some (float_lt (Fin (of_int a)) b)"
| "py_lt (FloatV a) (IntV b) = Some (float_lt a (Fin (of_int b)))"
| "py_lt (FloatV a) (FloatV b) = Some (float_lt a b)"
| "py_lt (StrV a) (StrV b) = Some (str_lt a b)"
| "py_lt (DateV y m d) (DateV y' m' d') = Some (triple_lt y m d y' m' d')"
| "py_lt (TimeV h m s) (TimeV h' m' s') = Some (triple_lt h m s h' m' s')"
| "py_lt (BytesV a) (BytesV b) = Some (str_lt a b)"
| "py_lt _ _ = None"

section \<open>Sorting and selection\<close>

text \<open>
  \<^verbatim>\<open>list.sort(key=..., reverse=...)\<close>. The interpreter first calls the key function on
  every element, in order, also when the list has a single element; then it sorts the
  list by \<^verbatim>\<open><\<close> on the keys. The sort is stable, and with \<^verbatim>\<open>reverse=True\<close> the list is
  reversed before and after the sort, so that elements with equal keys keep their
  original order in both directions. A comparison sort of two or more elements has to
  compare across any two unordered kinds of keys that occur, so \<^verbatim>\<open><\<close> raises exactly when
  two of the keys are unordered. The stable sort itself is written as an insertion sort:
  on keys that are all ordered, every stable sort returns the same list.
\<close>

fun insort_by :: "('a \<Rightarrow> 'a \<Rightarrow> bool) \<Rightarrow> 'a \<Rightarrow> 'a list \<Rightarrow> 'a list" where
  "insort_by lt x [] = [x]"
| "insort_by lt x (y # ys) = (if lt y x then y # insort_by lt x ys else x # y # ys)"

definition stable_sort :: "('a \<Rightarrow> 'a \<Rightarrow> bool) \<Rightarrow> 'a list \<Rightarrow> 'a list" where
  "stable_sort lt xs = foldr (insort_by lt) xs []"

fun sort_keys :: "string \<Rightarrow> row list \<Rightarrow> error + pyval list" where
  "sort_keys col [] = Inr []"
| "sort_keys col (x # xs) =
     (case dict_get x col of
        None \<Rightarrow> Inl (KeyError col)
      | Some k \<Rightarrow> (case sort_keys col xs of Inl e \<Rightarrow> Inl e | Inr ks \<Rightarrow> Inr (k # ks)))"

fun all_ordered :: "pyval list \<Rightarrow> bool" where
  "all_ordered [] = True"
| "all_ordered (k # ks) = (list_all (\<lambda>k'. py_lt k k' \<noteq> None) ks \<and> all_ordered ks)"

definition key_lt :: "pyval \<times> row \<Rightarrow> pyval \<times> row \<Rightarrow> bool" where
  "key_lt a b = (py_lt (fst a) (fst b) = Some True)"

definition list_sort :: "string \<Rightarrow> bool \<Rightarrow> row list \<Rightarrow> error + row list" where
  "list_sort col reverse result =
     (case sort_keys col result of
        Inl e \<Rightarrow> Inl e
      | Inr ks \<Rightarrow>
          if \<not> all_ordered ks then Inl TypeError_compare
          else let decorated = zip ks result
               in Inr (map snd (if reverse then rev (stable_sort key_lt (rev decorated))
                                else stable_sort key_lt decorated)))"

text \<open>
  \<^verbatim>\<open>Table.select\<close>. \<open>project\<close> is the comprehension \<^verbatim>\<open>{col: row[col] for col in columns}\<close>,
  \<open>collect\<close> the loop that fills \<^verbatim>\<open>result\<close>, \<open>sort_passes\<close> the loop over
  \<^verbatim>\<open>reversed(order_by)\<close>. An entry of \<^verbatim>\<open>order_by\<close> is a dictionary with the two keys
  \<^verbatim>\<open>'column'\<close> and \<^verbatim>\<open>'direction'\<close>; \<^verbatim>\<open>if order_by:\<close> is false for \<^verbatim>\<open>None\<close> and for the
  empty list.
\<close>

record order_key =
  column :: string
  direction :: string

fun project :: "row \<Rightarrow> string list \<Rightarrow> row \<Rightarrow> error + row" where
  "project r [] selected_row = Inr selected_row"
| "project r (col # cols) selected_row =
     (case dict_get r col of
        None \<Rightarrow> Inl (KeyError col)
      | Some v \<Rightarrow> project r cols (dict_set selected_row col v))"

fun collect :: "string list \<Rightarrow> predicate \<Rightarrow> row list \<Rightarrow> error + row list" where
  "collect cols w [] = Inr []"
| "collect cols w (r # rs) =
     (if matches w r then
        (case project r cols [] of
           Inl e \<Rightarrow> Inl e
         | Inr selected_row \<Rightarrow>
             (case collect cols w rs of
                Inl e \<Rightarrow> Inl e
              | Inr result \<Rightarrow> Inr (selected_row # result)))
      else collect cols w rs)"

fun sort_passes :: "order_key list \<Rightarrow> row list \<Rightarrow> error + row list" where
  "sort_passes [] result = Inr result"
| "sort_passes (ob # obs) result =
     (case list_sort (column ob) (direction ob = ''DESC'') result of
        Inl e \<Rightarrow> Inl e
      | Inr result' \<Rightarrow> sort_passes obs result')"

definition result_columns :: "Table \<Rightarrow> string list option \<Rightarrow> string list" where
  "result_columns t columns =
     (case columns of
        None \<Rightarrow> keys (schema t)
      | Some cs \<Rightarrow> if cs = [''*''] then keys (schema t) else cs)"

definition Table_select ::
  "Table \<Rightarrow> string list option \<Rightarrow> predicate \<Rightarrow> order_key list option \<Rightarrow> error + row list" where
  "Table_select t columns w order_by =
     (case collect (result_columns t columns) w (rows t) of
        Inl e \<Rightarrow> Inl e
      | Inr result \<Rightarrow>
          (case order_by of
             None \<Rightarrow> Inr result
           | Some obs \<Rightarrow> if obs = [] then Inr result else sort_passes (rev obs) result))"

section \<open>The database and the statement handlers\<close>

text \<open>
  \<^verbatim>\<open>class Database\<close> holds the dictionary \<^verbatim>\<open>tables\<close>. What a handler prints is a list of
  lines, each recorded with the data it is formatted from:
  \<^item> \<open>P_table_missing n\<close>: \<^verbatim>\<open>Table {table_name} does not exist\<close>;
  \<^item> \<open>P_header cs\<close>: the column names joined by tabs;
  \<^item> \<open>P_row vs\<close>: the values of one result row joined by tabs;
  \<^item> \<open>P_no_records\<close>: \<^verbatim>\<open>No eligible records\<close>;
  \<^item> \<open>P_error e\<close>: \<^verbatim>\<open>Error: {e}\<close>;
  \<^item> \<open>P_deleted n\<close>: \<^verbatim>\<open>Deleted {count} records.\<close>;
  \<^item> \<open>P_where_rejected\<close>: \<^verbatim>\<open>col = value only\<close>;
  \<^item> \<open>P_select_syntax\<close>: \<^verbatim>\<open>SELECT grammatical error\<close>;
  \<^item> \<open>P_saved\<close>: \<^verbatim>\<open>The database has been saved to {filename}\<close>;
  \<^item> \<open>P_file_missing\<close>: \<^verbatim>\<open>Database file not found {filename}...\<close>;
  \<^item> \<open>P_loaded\<close>: \<^verbatim>\<open>Loaded from {filename}\<close>;
  \<^item> \<open>P_load_error\<close>: \<^verbatim>\<open>Error loading database {e}\<close>.
\<close>

record Database =
  tables :: "Table dict"

datatype printed =
    P_table_missing string
  | P_header "string list"
  | P_row "pyval list"
  | P_no_records
  | P_error error
  | P_deleted nat
  | P_where_rejected
  | P_select_syntax
  | P_saved
  | P_file_missing
  | P_loaded
  | P_load_error

text \<open>
  The \<^verbatim>\<open>try\<close> block of \<^verbatim>\<open>LiteMySQL.handle_select\<close>, entered with the table name and the
  parsed columns, predicate and order. Every exception of \<^verbatim>\<open>select\<close> is caught by
  \<^verbatim>\<open>except Exception\<close>, before anything of the result has been printed. The handler as a
  whole, from the text of the statement, is \<open>handle_select\<close> below.
\<close>

definition handle_select_try ::
  "Database \<Rightarrow> string \<Rightarrow> string list \<Rightarrow> predicate \<Rightarrow> order_key list option \<Rightarrow> printed list" where
  "handle_select_try db table_name columns w order_by =
     (case dict_get (tables db) table_name of
        None \<Rightarrow> [P_table_missing table_name]
      | Some t \<Rightarrow>
          (case Table_select t (Some columns) w order_by of
             Inl e \<Rightarrow> [P_error e]
           | Inr results \<Rightarrow>
               (case results of
                  [] \<Rightarrow> [P_no_records]
                | first # _ \<Rightarrow> P_header (keys first) # map (\<lambda>r. P_row (map snd r)) results)))"

section \<open>Regular expressions\<close>

text \<open>
  The patterns of the source are kept as data and run by a backtracking matcher that
  follows Python's \<^verbatim>\<open>re\<close>: alternatives are tried from left to right, \<^verbatim>\<open>*\<close> and \<^verbatim>\<open>+\<close>
  take as much as they can first, and the match returned is the first one found in that
  order. \<open>run r (g, s)\<close> lists, in the order of the search, every way of matching \<open>r\<close> at
  the front of \<open>s\<close>: the groups captured so far and the text that is left. A character is
  a code point below 256.
  \<^item> \<open>Chr c\<close> is a literal character and \<open>Cls P\<close> a class such as \<^verbatim>\<open>\d\<close> or \<^verbatim>\<open>[0-2]\<close>;
  \<^item> \<open>Star P\<close> and \<open>Plus P\<close> repeat a class (the source repeats nothing else), and
    \<open>Plus_lazy P\<close> is the repetition \<^verbatim>\<open>+?\<close>, which takes as little as it can first;
  \<^item> \<open>Eol\<close> is \<^verbatim>\<open>$\<close>, which holds at the end of the text and before a final line break;
  \<^item> \<open>Grp n r\<close> is the capturing group number \<open>n\<close>.
  \<^verbatim>\<open>re.match\<close> anchors at the start, so a leading \<^verbatim>\<open>^\<close> adds nothing and is left out.
\<close>

datatype regex =
    Chr char
  | Cls "char \<Rightarrow> bool"
  | Star "char \<Rightarrow> bool"
  | Plus "char \<Rightarrow> bool"
  | Plus_lazy "char \<Rightarrow> bool"
  | Eps
  | Eol
  | Seq regex regex
  | Alt regex regex
  | Grp nat regex

type_synonym mstate = "(nat \<times> string) list \<times> string"

fun star_runs :: "(char \<Rightarrow> bool) \<Rightarrow> string \<Rightarrow> string list" where
  "star_runs P [] = [[]]"
| "star_runs P (c # s) = (if P c then star_runs P s @ [c # s] else [c # s])"

fun run :: "regex \<Rightarrow> mstate \<Rightarrow> mstate list" where
  "run (Chr c) (g, s) = (case s of [] \<Rightarrow> [] | d # s' \<Rightarrow> if d = c then [(g, s')] else [])"
| "run (Cls P) (g, s) = (case s of [] \<Rightarrow> [] | d # s' \<Rightarrow> if P d then [(g, s')] else [])"
| "run (Star P) (g, s) = map (Pair g) (star_runs P s)"
| "run (Plus P) (g, s) =
     (case s of [] \<Rightarrow> [] | d # s' \<Rightarrow> if P d then map (Pair g) (star_runs P s') else [])"
| "run (Plus_lazy P) (g, s) =
     (case s of [] \<Rightarrow> [] | d # s' \<Rightarrow> if P d then map (Pair g) (rev (star_runs P s')) else [])"
| "run Eps st = [st]"
| "run Eol (g, s) = (if s = [] \<or> s = [CHR 0x0A] then [(g, s)] else [])"
| "run (Seq a b) st = concat (map (run b) (run a st))"
| "run (Alt a b) st = run a st @ run b st"
| "run (Grp n a) (g, s) =
     map (\<lambda>st'. ((n, take (length s - length (snd st')) s) # fst st', snd st')) (run a (g, s))"

text \<open>
  \<^verbatim>\<open>re.match(pattern, text)\<close> as a truth value, and \<^verbatim>\<open>match.group(n)\<close> for a group that
  took part in the match.
\<close>

definition re_matches :: "regex \<Rightarrow> string \<Rightarrow> bool" where
  "re_matches r s = (run r ([], s) \<noteq> [])"

definition re_match :: "regex \<Rightarrow> string \<Rightarrow> (nat \<times> string) list option" where
  "re_match r s = (case run r ([], s) of [] \<Rightarrow> None | st # _ \<Rightarrow> Some (fst st))"

definition match_group :: "(nat \<times> string) list \<Rightarrow> nat \<Rightarrow> string" where
  "match_group g n = (case map_of g n of None \<Rightarrow> [] | Some t \<Rightarrow> t)"

fun seqs :: "regex list \<Rightarrow> regex" where
  "seqs [] = Eps"
| "seqs [r] = r"
| "seqs (r # rs) = Seq r (seqs rs)"

fun alts :: "regex list \<Rightarrow> regex" where
  "alts [] = Eps"
| "alts [r] = r"
| "alts (r # rs) = Alt r (alts rs)"

text \<open>The character classes of the patterns, for code points below 256.\<close>

definition is_digit :: "char \<Rightarrow> bool" where
  "is_digit c = (c \<in> set ''0123456789'')"

definition in_range :: "char \<Rightarrow> char \<Rightarrow> char \<Rightarrow> bool" where
  "in_range lo hi c = ((of_char lo :: nat) \<le> of_char c \<and> (of_char c :: nat) \<le> of_char hi)"

definition is_space :: "char \<Rightarrow> bool" where
  "is_space c = (let n = (of_char c :: nat) in
     (9 \<le> n \<and> n \<le> 13) \<or> (28 \<le> n \<and> n \<le> 32) \<or> n = 133 \<or> n = 160)"

definition is_word :: "char \<Rightarrow> bool" where
  "is_word c = (let n = (of_char c :: nat) in
     (48 \<le> n \<and> n \<le> 57) \<or> (65 \<le> n \<and> n \<le> 90) \<or> n = 95 \<or> (97 \<le> n \<and> n \<le> 122) \<or>
     n = 170 \<or> n = 178 \<or> n = 179 \<or> n = 181 \<or> n = 185 \<or> n = 186 \<or>
     (188 \<le> n \<and> n \<le> 190) \<or> (192 \<le> n \<and> n \<le> 214) \<or> (216 \<le> n \<and> n \<le> 246) \<or> 248 \<le> n)"

definition not_newline :: "char \<Rightarrow> bool" where
  "not_newline c = (c \<noteq> CHR 0x0A)"

definition is_quote :: "char \<Rightarrow> bool" where
  "is_quote c = (c = CHR 0x27)"

section \<open>Literals\<close>

text \<open>
  \<^verbatim>\<open>str.strip()\<close> removes white space at both ends, \<^verbatim>\<open>str.strip("'")\<close> every quote
  character at both ends.
\<close>

definition strip_chars :: "(char \<Rightarrow> bool) \<Rightarrow> string \<Rightarrow> string" where
  "strip_chars P s = rev (dropWhile P (rev (dropWhile P s)))"

definition strip :: "string \<Rightarrow> string" where
  "strip s = strip_chars is_space s"

text \<open>
  \<^verbatim>\<open>int(text)\<close>, for the texts that reach it here: white space around an optional minus
  sign and decimal digits. A text with more digits than \<open>int_max_str_digits\<close> is refused
  with a \<^verbatim>\<open>ValueError\<close>: this is the interpreter's limit on the conversion of text to
  \<^verbatim>\<open>int\<close>, 4300 digits unless the interpreter is started with another setting
  (\<^verbatim>\<open>sys.int_info.default_max_str_digits\<close>, in Python 3.11 and later); it counts the digits
  after the sign, leading zeros included. Any text of another shape is a \<^verbatim>\<open>ValueError\<close>
  too (\<^verbatim>\<open>int\<close> also reads a plus sign and underscores between digits, which no text
  that reaches it here has).
\<close>

definition digits_value :: "string \<Rightarrow> nat" where
  "digits_value ds = foldl (\<lambda>n c. 10 * n + (of_char c - 48)) 0 ds"

definition int_max_str_digits :: nat where
  "int_max_str_digits = 4300"

definition py_int :: "string \<Rightarrow> error + int" where
  "py_int s =
     (let t = strip s;
          negative = (t \<noteq> [] \<and> hd t = CHR ''-'');
          ds = (if negative then tl t else t)
      in if ds = [] \<or> \<not> list_all is_digit ds then Inl ValueError_int_literal
         else if int_max_str_digits < length ds then Inl ValueError_int_digits
         else Inr (if negative then - int (digits_value ds) else int (digits_value ds)))"

text \<open>
  \<^verbatim>\<open>datetime.datetime.strptime\<close>, for the two formats of the source. The library turns the
  format into a pattern (\<^verbatim>\<open>%Y\<close> is \<^verbatim>\<open>\d\d\d\d\<close>, \<^verbatim>\<open>%m\<close> is \<^verbatim>\<open>1[0-2]|0[1-9]|[1-9]\<close>, \<^verbatim>\<open>%d\<close> is
  \<^verbatim>\<open>3[0-1]|[1-2]\d|0[1-9]|[1-9]| [1-9]\<close>, \<^verbatim>\<open>%H\<close> is \<^verbatim>\<open>2[0-3]|[0-1]\d|\d\<close>, \<^verbatim>\<open>%M\<close> is
  \<^verbatim>\<open>[0-5]\d|\d\<close>, \<^verbatim>\<open>%S\<close> is \<^verbatim>\<open>6[0-1]|[0-5]\d|\d\<close>), matches it at the start of the text,
  raises \<^verbatim>\<open>ValueError\<close> when there is no match or when text is left over, converts the
  fields with \<^verbatim>\<open>int\<close>, and builds the date or time, which raises \<^verbatim>\<open>ValueError\<close> for a
  year 0, a day beyond the end of the month or a second beyond 59. \<open>None\<close> stands for the
  \<^verbatim>\<open>ValueError\<close>, which \<^verbatim>\<open>parse_value\<close> catches.
\<close>

definition date_re :: regex where
  "date_re = seqs
     [Grp 1 (seqs [Cls is_digit, Cls is_digit, Cls is_digit, Cls is_digit]),
      Chr CHR ''-'',
      Grp 2 (alts [Seq (Chr CHR ''1'') (Cls (in_range CHR ''0'' CHR ''2'')),
                   Seq (Chr CHR ''0'') (Cls (in_range CHR ''1'' CHR ''9'')),
                   Cls (in_range CHR ''1'' CHR ''9'')]),
      Chr CHR ''-'',
      Grp 3 (alts [Seq (Chr CHR ''3'') (Cls (in_range CHR ''0'' CHR ''1'')),
                   Seq (Cls (in_range CHR ''1'' CHR ''2'')) (Cls is_digit),
                   Seq (Chr CHR ''0'') (Cls (in_range CHR ''1'' CHR ''9'')),
                   Cls (in_range CHR ''1'' CHR ''9''),
                   Seq (Chr CHR '' '') (Cls (in_range CHR ''1'' CHR ''9''))])]"

definition time_re :: regex where
  "time_re = seqs
     [Grp 1 (alts [Seq (Chr CHR ''2'') (Cls (in_range CHR ''0'' CHR ''3'')),
                   Seq (Cls (in_range CHR ''0'' CHR ''1'')) (Cls is_digit),
                   Cls is_digit]),
      Chr CHR '':'',
      Grp 2 (alts [Seq (Cls (in_range CHR ''0'' CHR ''5'')) (Cls is_digit),
                   Cls is_digit]),
      Chr CHR '':'',
      Grp 3 (alts [Seq (Chr CHR ''6'') (Cls (in_range CHR ''0'' CHR ''1'')),
                   Seq (Cls (in_range CHR ''0'' CHR ''5'')) (Cls is_digit),
                   Cls is_digit])]"

definition is_leap :: "nat \<Rightarrow> bool" where
  "is_leap y = (y mod 4 = 0 \<and> (y mod 100 \<noteq> 0 \<or> y mod 400 = 0))"

definition days_in_month :: "nat \<Rightarrow> nat \<Rightarrow> nat" where
  "days_in_month y m =
     (if m = 2 then (if is_leap y then 29 else 28)
      else if m = 4 \<or> m = 6 \<or> m = 9 \<or> m = 11 then 30 else 31)"

definition valid_date :: "nat \<Rightarrow> nat \<Rightarrow> nat \<Rightarrow> bool" where
  "valid_date y m d = (1 \<le> y \<and> y \<le> 9999 \<and> 1 \<le> m \<and> m \<le> 12 \<and> 1 \<le> d \<and> d \<le> days_in_month y m)"

definition valid_time :: "nat \<Rightarrow> nat \<Rightarrow> nat \<Rightarrow> bool" where
  "valid_time h m s = (h \<le> 23 \<and> m \<le> 59 \<and> s \<le> 59)"

definition strptime_date :: "string \<Rightarrow> pyval option" where
  "strptime_date data_string =
     (case run date_re ([], data_string) of
        [] \<Rightarrow> None
      | (g, rest) # _ \<Rightarrow>
          if rest \<noteq> [] then None
          else (case (py_int (match_group g 1), py_int (match_group g 2), py_int (match_group g 3)) of
                  (Inr y, Inr m, Inr d) \<Rightarrow>
                    if valid_date (nat y) (nat m) (nat d) then Some (DateV (nat y) (nat m) (nat d))
                    else None
                | _ \<Rightarrow> None))"

definition strptime_time :: "string \<Rightarrow> pyval option" where
  "strptime_time data_string =
     (case run time_re ([], data_string) of
        [] \<Rightarrow> None
      | (g, rest) # _ \<Rightarrow>
          if rest \<noteq> [] then None
          else (case (py_int (match_group g 1), py_int (match_group g 2), py_int (match_group g 3)) of
                  (Inr h, Inr m, Inr s) \<Rightarrow>
                    if valid_time (nat h) (nat m) (nat s) then Some (TimeV (nat h) (nat m) (nat s))
                    else None
                | _ \<Rightarrow> None))"

text \<open>
  \<^verbatim>\<open>LiteMySQL.parse_value\<close>, with its three patterns \<^verbatim>\<open>^-?\d+$\<close>, \<^verbatim>\<open>^-?\d+\.\d+$\<close> and
  \<^verbatim>\<open>^'.*'$\<close>. \<^verbatim>\<open>float(text)\<close> is the C library's conversion of a decimal literal to the
  nearest double; it is the parameter \<open>float_of\<close>. The \<^verbatim>\<open>ValueError\<close> of \<^verbatim>\<open>int(value_str)\<close> is
  not caught here: \<open>Inl\<close> is an exception that leaves \<^verbatim>\<open>parse_value\<close>.
\<close>

definition int_re :: regex where
  "int_re = seqs [Alt (Chr CHR ''-'') Eps, Plus is_digit, Eol]"

definition float_re :: regex where
  "float_re = seqs [Alt (Chr CHR ''-'') Eps, Plus is_digit, Chr CHR ''.'', Plus is_digit, Eol]"

definition quoted_re :: regex where
  "quoted_re = seqs [Chr CHR 0x27, Star not_newline, Chr CHR 0x27, Eol]"

definition parse_value :: "(string \<Rightarrow> pyfloat) \<Rightarrow> string \<Rightarrow> error + pyval" where
  "parse_value float_of value_str =
     (if re_matches int_re value_str then
        (case py_int value_str of Inl e \<Rightarrow> Inl e | Inr i \<Rightarrow> Inr (IntV i))
      else if re_matches float_re value_str then Inr (FloatV (float_of value_str))
      else if re_matches quoted_re value_str then Inr (StrV (strip_chars is_quote value_str))
      else case strptime_date value_str of
             Some d \<Rightarrow> Inr d
           | None \<Rightarrow>
               (case strptime_time value_str of
                  Some t \<Rightarrow> Inr t
                | None \<Rightarrow> Inr (StrV value_str)))"

text \<open>
  \<^verbatim>\<open>LiteMySQL.parse_where\<close>, with the pattern \<^verbatim>\<open>(\w+)\s*=\s*(.+)\<close>. It returns what it
  prints and the predicate; \<^verbatim>\<open>row.get(col)\<close> is \<^verbatim>\<open>None\<close> for a missing column. An exception
  of \<^verbatim>\<open>parse_value\<close> leaves \<^verbatim>\<open>parse_where\<close> as well.
\<close>

definition where_re :: regex where
  "where_re = seqs [Grp 1 (Plus is_word), Star is_space, Chr CHR ''='', Star is_space,
                    Grp 2 (Plus not_newline)]"

definition row_get :: "row \<Rightarrow> string \<Rightarrow> pyval" where
  "row_get r col = (case dict_get r col of None \<Rightarrow> NoneV | Some v \<Rightarrow> v)"

definition parse_where ::
  "(string \<Rightarrow> pyfloat) \<Rightarrow> string \<Rightarrow> error + printed list \<times> predicate" where
  "parse_where float_of condition_str =
     (if condition_str = [] then Inr ([], None)
      else case re_match where_re (strip condition_str) of
             None \<Rightarrow> Inr ([P_where_rejected], None)
           | Some g \<Rightarrow>
               (let col = match_group g 1; val_str = match_group g 2
                in case parse_value float_of (strip val_str) of
                     Inl e \<Rightarrow> Inl e
                   | Inr val \<Rightarrow> Inr ([], Some (\<lambda>r. py_eq (row_get r col) val))))"

section \<open>The SELECT statement\<close>

text \<open>
  \<^verbatim>\<open>str.split(sep)\<close> cuts a text at every occurrence of a separator character,
  \<^verbatim>\<open>str.split()\<close> at every run of white space, dropping empty pieces, and \<^verbatim>\<open>str.upper()\<close>
  turns small letters into capitals. (Of the code points below 256 only \<^verbatim>\<open>0xB5\<close> and
  \<^verbatim>\<open>0xFF\<close> have a capital above 255; they are left as they are, which does not change
  whether the result is \<^verbatim>\<open>ASC\<close> or \<^verbatim>\<open>DESC\<close>.)
\<close>

fun split_on :: "char \<Rightarrow> string \<Rightarrow> string list" where
  "split_on sep [] = [[]]"
| "split_on sep (c # s) =
     (if c = sep then [] # split_on sep s
      else (case split_on sep s of [] \<Rightarrow> [[c]] | f # fs \<Rightarrow> (c # f) # fs))"

fun split_words :: "string \<Rightarrow> string \<Rightarrow> string list" where
  "split_words current [] = (if current = [] then [] else [current])"
| "split_words current (c # s) =
     (if is_space c then (if current = [] then split_words [] s else current # split_words [] s)
      else split_words (current @ [c]) s)"

definition str_split :: "string \<Rightarrow> string list" where
  "str_split s = split_words [] s"

definition upper_char :: "char \<Rightarrow> string" where
  "upper_char c =
     (let n = (of_char c :: nat) in
      if (97 \<le> n \<and> n \<le> 122) \<or> (224 \<le> n \<and> n \<le> 254 \<and> n \<noteq> 247) then [char_of (n - 32)]
      else if n = 223 then ''SS''
      else [c])"

definition str_upper :: "string \<Rightarrow> string" where
  "str_upper s = concat (map upper_char s)"

text \<open>
  \<^verbatim>\<open>LiteMySQL.split_order_by\<close> cuts the text of the \<^verbatim>\<open>ORDER BY\<close> clause at the commas that
  stand outside parentheses; \<open>split_order_by_loop\<close> is its loop, with the variables
  \<^verbatim>\<open>parts\<close>, \<^verbatim>\<open>current\<close> and \<^verbatim>\<open>paren_level\<close>. \<^verbatim>\<open>LiteMySQL.parse_order_by\<close> reads each part as a
  column name and an optional direction; a part of white space only leaves
  \<^verbatim>\<open>parts[0]\<close> without an element, an \<^verbatim>\<open>IndexError\<close> that nothing in the handler catches.
\<close>

fun split_order_by_loop :: "string \<Rightarrow> string list \<Rightarrow> string \<Rightarrow> int \<Rightarrow> string list \<times> string" where
  "split_order_by_loop [] parts current paren_level = (parts, current)"
| "split_order_by_loop (c # s) parts current paren_level =
     (if c = CHR ''('' then split_order_by_loop s parts (current @ [c]) (paren_level + 1)
      else if c = CHR '')'' then split_order_by_loop s parts (current @ [c]) (paren_level - 1)
      else if c = CHR '','' \<and> paren_level = 0 then split_order_by_loop s (parts @ [current]) [] paren_level
      else split_order_by_loop s parts (current @ [c]) paren_level)"

definition split_order_by :: "string \<Rightarrow> string list" where
  "split_order_by order_by_str =
     (case split_order_by_loop order_by_str [] [] 0 of
        (parts, current) \<Rightarrow> if current \<noteq> [] then parts @ [current] else parts)"

fun parse_order_parts :: "string list \<Rightarrow> error + order_key list" where
  "parse_order_parts [] = Inr []"
| "parse_order_parts (part # rest) =
     (case str_split (strip part) of
        [] \<Rightarrow> Inl IndexError
      | col # others \<Rightarrow>
          (let direction =
                 (case others of
                    [] \<Rightarrow> ''ASC''
                  | d # _ \<Rightarrow> if str_upper d = ''ASC'' \<or> str_upper d = ''DESC'' then str_upper d else ''ASC'')
           in case parse_order_parts rest of
                Inl e \<Rightarrow> Inl e
              | Inr order_by \<Rightarrow> Inr (\<lparr>column = col, direction = direction\<rparr> # order_by)))"

definition parse_order_by :: "string \<Rightarrow> error + order_key list" where
  "parse_order_by order_by_str = parse_order_parts (split_order_by order_by_str)"

text \<open>
  The pattern of \<^verbatim>\<open>LiteMySQL.handle_select\<close>,
  \<^verbatim>\<open>SELECT\s+(.+)\s+FROM\s+(\w+)(?:\s+WHERE\s+(.+?))?(?:\s+ORDER\s+BY\s+(.+))?$\<close>, matched with
  \<^verbatim>\<open>re.IGNORECASE\<close>: a letter of a keyword stands for itself and for its small letter.
  An optional part is tried first with its content and then without.
\<close>

definition letter :: "char \<Rightarrow> char \<Rightarrow> bool" where
  "letter c d = (d = c \<or> (of_char d :: nat) = of_char c + 32)"

definition keyword :: "string \<Rightarrow> regex" where
  "keyword w = seqs (map (\<lambda>c. Cls (letter c)) w)"

definition select_re :: regex where
  "select_re = seqs
     [keyword ''SELECT'', Plus is_space, Grp 1 (Plus not_newline), Plus is_space,
      keyword ''FROM'', Plus is_space, Grp 2 (Plus is_word),
      Alt (seqs [Plus is_space, keyword ''WHERE'', Plus is_space, Grp 3 (Plus_lazy not_newline)]) Eps,
      Alt (seqs [Plus is_space, keyword ''ORDER'', Plus is_space, keyword ''BY'', Plus is_space,
                 Grp 4 (Plus not_newline)]) Eps,
      Eol]"

text \<open>
  \<^verbatim>\<open>LiteMySQL.handle_select\<close>. \<open>handle_select_parse\<close> is what the handler does before its
  \<^verbatim>\<open>try\<close> block: it matches the pattern and reads the columns, the \<^verbatim>\<open>WHERE\<close> clause and the
  \<^verbatim>\<open>ORDER BY\<close> clause, a group that took no part in the match being \<^verbatim>\<open>None\<close>. Its result is
  \<open>None\<close> when the pattern does not match, and otherwise what \<^verbatim>\<open>parse_where\<close> printed, the
  table name, the columns, the predicate and the order. An exception raised there is not
  caught by the handler: \<open>Inl (out, e)\<close> is the exception \<open>e\<close> leaving the handler after the
  lines \<open>out\<close> have been printed. \<open>handle_select\<close> is the whole handler: the lines printed
  before the \<^verbatim>\<open>try\<close> block followed by those of the block.
\<close>

definition select_columns :: "string \<Rightarrow> string list" where
  "select_columns columns_str =
     (if columns_str \<noteq> ''*'' then map strip (split_on CHR '','' columns_str) else [''*''])"

definition handle_select_parse ::
  "(string \<Rightarrow> pyfloat) \<Rightarrow> string
     \<Rightarrow> printed list \<times> error +
        (printed list \<times> string \<times> string list \<times> predicate \<times> order_key list option) option" where
  "handle_select_parse float_of query =
     (case re_match select_re query of
        None \<Rightarrow> Inr None
      | Some g \<Rightarrow>
          (let columns_str = match_group g 1; table_name = match_group g 2;
               where_str = map_of g 3; order_by_str = map_of g 4;
               columns = select_columns columns_str
           in case (case where_str of
                      None \<Rightarrow> Inr ([], None)
                    | Some ws \<Rightarrow> parse_where float_of ws) of
                Inl e \<Rightarrow> Inl ([], e)
              | Inr (out, w) \<Rightarrow>
                  (case order_by_str of
                     None \<Rightarrow> Inr (Some (out, table_name, columns, w, None))
                   | Some os \<Rightarrow>
                       (case parse_order_by os of
                          Inl e \<Rightarrow> Inl (out, e)
                        | Inr order_by \<Rightarrow> Inr (Some (out, table_name, columns, w, Some order_by))))))"

definition handle_select ::
  "(string \<Rightarrow> pyfloat) \<Rightarrow> Database \<Rightarrow> string \<Rightarrow> printed list \<times> error + printed list" where
  "handle_select float_of db query =
     (case handle_select_parse float_of query of
        Inl raised \<Rightarrow> Inl raised
      | Inr None \<Rightarrow> Inr [P_select_syntax]
      | Inr (Some (out, table_name, columns, w, order_by)) \<Rightarrow>
          Inr (out @ handle_select_try db table_name columns w order_by))"

section \<open>Persistence\<close>

text \<open>
  \<^verbatim>\<open>to_dict\<close> builds Python objects out of dictionaries, lists and cell values;
  \<^verbatim>\<open>json.dump\<close> writes them as a document and \<^verbatim>\<open>json.load\<close> reads a document back. The
  document is kept as its tree of values, as written by \<^verbatim>\<open>json.dump\<close>: the text of the
  file, which the library writes and reads back to the same tree, is not modelled, and a
  number keeps its kind (a float is written with a decimal point or an exponent and is
  read back as the same double).
\<close>

datatype pyobj =
    Val pyval
  | List "pyobj list"
  | Dict "(string \<times> pyobj) list"

datatype json =
    JNull
  | JInt int
  | JReal pyfloat
  | JString string
  | JArray "json list"
  | JObject "(string \<times> json) list"

text \<open>
  \<^verbatim>\<open>str(value)\<close> for the values that \<^verbatim>\<open>json.dump\<close> cannot write by itself and hands to
  \<^verbatim>\<open>default=str\<close>: a date is \<^verbatim>\<open>YYYY-MM-DD\<close>, a time \<^verbatim>\<open>HH:MM:SS\<close>, and bytes their literal
  \<^verbatim>\<open>b'...'\<close>.
\<close>

fun decimal :: "nat \<Rightarrow> string" where
  "decimal n =
     (if n < 10 then [char_of (48 + n)] else decimal (n div 10) @ [char_of (48 + n mod 10)])"

definition zero_pad :: "nat \<Rightarrow> nat \<Rightarrow> string" where
  "zero_pad width n = replicate (width - length (decimal n)) CHR ''0'' @ decimal n"

definition hex_digit :: "nat \<Rightarrow> char" where
  "hex_digit n = (if n < 10 then char_of (48 + n) else char_of (87 + n))"

definition bytes_char :: "char \<Rightarrow> char \<Rightarrow> string" where
  "bytes_char quote c =
     (let n = (of_char c :: nat) in
      if c = quote \<or> c = CHR 0x5C then [CHR 0x5C, c]
      else if c = CHR 0x09 then [CHR 0x5C, CHR ''t'']
      else if c = CHR 0x0A then [CHR 0x5C, CHR ''n'']
      else if c = CHR 0x0D then [CHR 0x5C, CHR ''r'']
      else if n < 32 \<or> 127 \<le> n then [CHR 0x5C, CHR ''x'', hex_digit (n div 16), hex_digit (n mod 16)]
      else [c])"

definition bytes_repr :: "string \<Rightarrow> string" where
  "bytes_repr b =
     (let quote = (if CHR 0x27 \<in> set b \<and> CHR 0x22 \<notin> set b then CHR 0x22 else CHR 0x27)
      in [CHR ''b'', quote] @ concat (map (bytes_char quote) b) @ [quote])"

fun py_str :: "pyval \<Rightarrow> string" where
  "py_str (DateV y m d) = zero_pad 4 y @ ''-'' @ zero_pad 2 m @ ''-'' @ zero_pad 2 d"
| "py_str (TimeV h m s) = zero_pad 2 h @ '':'' @ zero_pad 2 m @ '':'' @ zero_pad 2 s"
| "py_str (BytesV b) = bytes_repr b"
| "py_str (StrV s) = s"
| "py_str _ = []"

fun json_dump :: "pyobj \<Rightarrow> json" where
  "json_dump (Val v) =
     (case v of
        IntV i \<Rightarrow> JInt i
      | FloatV f \<Rightarrow> JReal f
      | StrV s \<Rightarrow> JString s
      | NoneV \<Rightarrow> JNull
      | _ \<Rightarrow> JString (py_str v))"
| "json_dump (List xs) = JArray (map json_dump xs)"
| "json_dump (Dict kvs) = JObject (map (\<lambda>kv. (fst kv, json_dump (snd kv))) kvs)"

text \<open>
  \<^verbatim>\<open>json.load\<close> builds a dictionary from the members of an object in their order; should
  a name occur twice, the later value is stored under the key where it first stood.
\<close>

definition dict_of :: "(string \<times> 'v) list \<Rightarrow> 'v dict" where
  "dict_of items = foldl (\<lambda>d kv. dict_set d (fst kv) (snd kv)) [] items"

fun json_load :: "json \<Rightarrow> pyobj" where
  "json_load JNull = Val NoneV"
| "json_load (JInt i) = Val (IntV i)"
| "json_load (JReal f) = Val (FloatV f)"
| "json_load (JString s) = Val (StrV s)"
| "json_load (JArray xs) = List (map json_load xs)"
| "json_load (JObject kvs) = Dict (dict_of (map (\<lambda>kv. (fst kv, json_load (snd kv))) kvs))"

text \<open>\<^verbatim>\<open>Table.to_dict\<close> and \<^verbatim>\<open>Database.to_dict\<close>.\<close>

definition Table_to_dict :: "Table \<Rightarrow> pyobj" where
  "Table_to_dict t =
     Dict [(''name'', Val (StrV (name t))),
           (''schema'', Dict (map (\<lambda>cd. (fst cd, Val (StrV (DataType_value (snd cd))))) (schema t))),
           (''rows'', List (map (\<lambda>r. Dict (map (\<lambda>cv. (fst cv, Val (snd cv))) r)) (rows t)))]"

definition Database_to_dict :: "Database \<Rightarrow> pyobj" where
  "Database_to_dict db =
     Dict [(''tables'', Dict (map (\<lambda>nt. (fst nt, Table_to_dict (snd nt))) (tables db)))]"

text \<open>
  \<^verbatim>\<open>Table.from_dict\<close>. \<open>None\<close> stands for any exception (a missing key, a type tag that
  \<^verbatim>\<open>DataType(dtype)\<close> does not know, a schema that is not a dictionary); they are all
  caught and reported alike by \<^verbatim>\<open>load_from_file\<close>. The source assigns \<^verbatim>\<open>data['rows']\<close> and
  \<^verbatim>\<open>data['name']\<close> as they come; a name that is not text and rows that are not a list of
  dictionaries of cell values have no counterpart in the table type, and such a document
  is taken as one that does not load.
\<close>

definition DataType_of :: "string \<Rightarrow> DataType option" where
  "DataType_of s =
     (if s = ''INTEGER'' then Some INTEGER
      else if s = ''FLOAT'' then Some FLOAT
      else if s = ''DATE'' then Some DATE
      else if s = ''TIME'' then Some TIME
      else if s = ''CHAR'' then Some CHAR'
      else if s = ''BINARY'' then Some BINARY
      else None)"

fun sequence :: "'a option list \<Rightarrow> 'a list option" where
  "sequence [] = Some []"
| "sequence (x # xs) =
     (case x of
        None \<Rightarrow> None
      | Some y \<Rightarrow> (case sequence xs of None \<Rightarrow> None | Some ys \<Rightarrow> Some (y # ys)))"

definition schema_entry :: "string \<times> pyobj \<Rightarrow> (string \<times> DataType) option" where
  "schema_entry cd =
     (case snd cd of
        Val (StrV s) \<Rightarrow> (case DataType_of s of None \<Rightarrow> None | Some ty \<Rightarrow> Some (fst cd, ty))
      | _ \<Rightarrow> None)"

definition cell_entry :: "string \<times> pyobj \<Rightarrow> (string \<times> pyval) option" where
  "cell_entry cv = (case snd cv of Val v \<Rightarrow> Some (fst cv, v) | _ \<Rightarrow> None)"

definition row_of :: "pyobj \<Rightarrow> row option" where
  "row_of obj = (case obj of Dict cvs \<Rightarrow> sequence (map cell_entry cvs) | _ \<Rightarrow> None)"

definition Table_from_dict :: "pyobj \<Rightarrow> Table option" where
  "Table_from_dict data =
     (case data of
        Dict d \<Rightarrow>
          (case (dict_get d ''schema'', dict_get d ''name'', dict_get d ''rows'') of
             (Some (Dict sd), Some (Val (StrV n)), Some (List rs)) \<Rightarrow>
               (case (sequence (map schema_entry sd), sequence (map row_of rs)) of
                  (Some sch, Some rws) \<Rightarrow> Some \<lparr>name = n, schema = dict_of sch, rows = rws\<rparr>
                | _ \<Rightarrow> None)
           | _ \<Rightarrow> None)
      | _ \<Rightarrow> None)"

text \<open>
  \<^verbatim>\<open>Database.save_to_file\<close> and \<^verbatim>\<open>Database.load_from_file\<close>. The file is a document or
  absent. Saving always succeeds here (no failure of the file system is modelled) and
  prints one line. Loading prints one line; a table that does not load ends the loop,
  and the tables stored before it stay.
\<close>

definition save_to_file :: "Database \<Rightarrow> printed list \<times> json option" where
  "save_to_file db = ([P_saved], Some (json_dump (Database_to_dict db)))"

fun load_tables :: "Database \<Rightarrow> (string \<times> pyobj) list \<Rightarrow> printed list \<times> Database" where
  "load_tables db [] = ([P_loaded], db)"
| "load_tables db ((table_name, table_data) # rest) =
     (case Table_from_dict table_data of
        None \<Rightarrow> ([P_load_error], db)
      | Some t \<Rightarrow> load_tables (db\<lparr>tables := dict_set (tables db) table_name t\<rparr>) rest)"

definition load_from_file :: "Database \<Rightarrow> json option \<Rightarrow> printed list \<times> Database" where
  "load_from_file db file =
     (case file of
        None \<Rightarrow> ([P_file_missing], db)
      | Some doc \<Rightarrow>
          (case json_load doc of
             Dict d \<Rightarrow>
               (case dict_get d ''tables'' of
                  None \<Rightarrow> ([P_loaded], db)
                | Some (Dict ts) \<Rightarrow> load_tables db ts
                | Some _ \<Rightarrow> ([P_load_error], db))
           | _ \<Rightarrow> ([P_load_error], db)))"

text \<open>
  \<^verbatim>\<open>LiteMySQL.handle_delete\<close> after its pattern has matched, with the table name and the
  text of the \<^verbatim>\<open>WHERE\<close> clause, \<open>None\<close> when the statement has none. The table object is
  changed in place, the count is printed and the database saved. The result is what is
  printed, the database, and the document written to the file (\<open>None\<close> when the handler
  returns before saving). \<^verbatim>\<open>parse_where\<close> is called before the \<^verbatim>\<open>try\<close> block, so its
  exception leaves the handler (\<open>Inl\<close>).
\<close>

definition handle_delete_try ::
  "(string \<Rightarrow> pyfloat) \<Rightarrow> Database \<Rightarrow> string \<Rightarrow> string option
     \<Rightarrow> error + printed list \<times> Database \<times> json option option" where
  "handle_delete_try float_of db table_name where_str =
     (case (case where_str of None \<Rightarrow> Inr ([], None) | Some ws \<Rightarrow> parse_where float_of ws) of
        Inl e \<Rightarrow> Inl e
      | Inr (out, w) \<Rightarrow>
          (case dict_get (tables db) table_name of
             None \<Rightarrow> Inr (out @ [P_table_missing table_name], db, None)
           | Some t \<Rightarrow>
               (let (cnt, t') = Table_delete t w;
                    db' = db\<lparr>tables := dict_set (tables db) table_name t'\<rparr>;
                    (out', file) = save_to_file db'
                in Inr (out @ [P_deleted cnt] @ out', db', Some file))))"

section \<open>Row invariant and descriptions used in the statements\<close>

text \<open>
  The row invariant of the spec: the key set of a row is the key set of the schema, and
  every value passes \<open>validate_type\<close> for the declared type of its column.
\<close>

definition cell_ok :: "DataType dict \<Rightarrow> string \<times> pyval \<Rightarrow> bool" where
  "cell_ok sch cv =
     (case dict_get sch (fst cv) of None \<Rightarrow> False | Some ty \<Rightarrow> validate_type (snd cv) ty)"

definition row_ok :: "DataType dict \<Rightarrow> row \<Rightarrow> bool" where
  "row_ok sch r = (set (keys r) = set (keys sch) \<and> list_all (cell_ok sch) r)"

definition table_ok :: "Table \<Rightarrow> bool" where
  "table_ok t = list_all (row_ok (schema t)) (rows t)"

text \<open>
  An assignment of an update is invalid when its column is declared and its value fails
  validation; \<open>applied sch items r\<close> is the row \<open>r\<close> after the assignments \<open>items\<close> to
  declared columns have been written into it, in order.
\<close>

definition invalid :: "DataType dict \<Rightarrow> string \<times> pyval \<Rightarrow> bool" where
  "invalid sch cv =
     (case dict_get sch (fst cv) of None \<Rightarrow> False | Some ty \<Rightarrow> \<not> validate_type (snd cv) ty)"

definition applied :: "DataType dict \<Rightarrow> (string \<times> pyval) list \<Rightarrow> row \<Rightarrow> row" where
  "applied sch items r =
     foldl (\<lambda>acc cv. dict_set acc (fst cv) (snd cv)) r
       (filter (\<lambda>cv. dict_get sch (fst cv) \<noteq> None) items)"













text \<open>
  What the round trip of a database needs: the dictionaries of the model are
  dictionaries (no key twice), and every object to be written is one that the document
  format holds natively, that is a number, a text or \<^verbatim>\<open>None\<close>. \<open>plain_columns\<close> says
  that a table declares only Integer, Float and Char columns.
\<close>

definition plain_value :: "pyval \<Rightarrow> bool" where
  "plain_value v = (case v of IntV _ \<Rightarrow> True | FloatV _ \<Rightarrow> True | StrV _ \<Rightarrow> True | NoneV \<Rightarrow> True | _ \<Rightarrow> False)"

fun plain_obj :: "pyobj \<Rightarrow> bool" where
  "plain_obj (Val v) = plain_value v"
| "plain_obj (List xs) = list_all plain_obj xs"
| "plain_obj (Dict kvs) = (distinct (map fst kvs) \<and> list_all (\<lambda>kv. plain_obj (snd kv)) kvs)"

definition plain_columns :: "Table \<Rightarrow> bool" where
  "plain_columns t = list_all (\<lambda>cd. snd cd = INTEGER \<or> snd cd = FLOAT \<or> snd cd = CHAR') (schema t)"

definition wf_table :: "Table \<Rightarrow> bool" where
  "wf_table t = (distinct (keys (schema t)) \<and> list_all (\<lambda>r. distinct (keys r)) (rows t))"

definition wf_database :: "Database \<Rightarrow> bool" where
  "wf_database db = (distinct (keys (tables db)) \<and> list_all (\<lambda>nt. wf_table (snd nt)) (tables db))"

text \<open>
  A stand-in for \<^verbatim>\<open>float\<close> in the examples, none of which has a decimal literal.
\<close>

definition float_zero :: "string \<Rightarrow> pyfloat" where
  "float_zero s = Fin 0"

text \<open>
  The table of the spec's end-to-end example, \<^verbatim>\<open>CREATE TABLE person (id INTEGER, name CHAR)\<close>,
  here with two rows.
\<close>

definition person :: Table where
  "person = \<lparr>name = ''person'', schema = [(''id'', INTEGER), (''name'', CHAR')],
     rows = [[(''id'', IntV 1), (''name'', StrV ''Ann'')],
             [(''id'', IntV 2), (''name'', StrV ''Bea'')]]\<rparr>"

text \<open>
  The order that an order specification describes, in the words of the spec. A row is
  before another under one key when its cell is smaller (larger, for \<^verbatim>\<open>DESC\<close>) by \<^verbatim>\<open><\<close>;
  under a list of keys, when it is before under the first key on which the two cells are
  not equal by \<^verbatim>\<open>==\<close>. Two rows are tied when their cells are equal on every key.
\<close>

definition cell_lt :: "string \<Rightarrow> row \<Rightarrow> row \<Rightarrow> bool" where
  "cell_lt c a b =
     (case (dict_get a c, dict_get b c) of (Some u, Some v) \<Rightarrow> py_lt u v = Some True | _ \<Rightarrow> False)"

definition cell_eq :: "string \<Rightarrow> row \<Rightarrow> row \<Rightarrow> bool" where
  "cell_eq c a b =
     (case (dict_get a c, dict_get b c) of (Some u, Some v) \<Rightarrow> py_eq u v | _ \<Rightarrow> False)"

definition key_before :: "order_key \<Rightarrow> row \<Rightarrow> row \<Rightarrow> bool" where
  "key_before ob a b =
     (if direction ob = ''DESC'' then cell_lt (column ob) b a else cell_lt (column ob) a b)"

fun lex_before :: "order_key list \<Rightarrow> row \<Rightarrow> row \<Rightarrow> bool" where
  "lex_before [] a b = False"
| "lex_before (ob # obs) a b =
     (key_before ob a b \<or> (cell_eq (column ob) a b \<and> lex_before obs a b))"

definition tied :: "order_key list \<Rightarrow> row \<Rightarrow> row \<Rightarrow> bool" where
  "tied obs a b = list_all (\<lambda>ob. cell_eq (column ob) a b) obs"


text \<open>
  The two tables of the ordering examples, with the order \<^verbatim>\<open>ORDER BY a ASC, b DESC\<close>, and a
  database that holds the table \<open>person\<close>.
\<close>

definition ab_table :: Table where
  "ab_table = \<lparr>name = ''t'', schema = [(''a'', INTEGER), (''b'', INTEGER)],
     rows = [[(''a'', IntV 1), (''b'', IntV 2)],
             [(''a'', IntV 1), (''b'', IntV 1)],
             [(''a'', IntV 2), (''b'', IntV 1)]]\<rparr>"

definition ab_order :: "order_key list" where
  "ab_order = [\<lparr>column = ''a'', direction = ''ASC''\<rparr>, \<lparr>column = ''b'', direction = ''DESC''\<rparr>]"

definition ba_table :: Table where
  "ba_table = \<lparr>name = ''t'', schema = [(''a'', INTEGER), (''b'', INTEGER)],
     rows = [[(''a'', IntV 2), (''b'', IntV 1)],
             [(''a'', IntV 1), (''b'', IntV 1)],
             [(''a'', IntV 1), (''b'', IntV 2)],
             [(''a'', IntV 2), (''b'', IntV 1)]]\<rparr>"

definition person_db :: Database where
  "person_db = \<lparr>tables = [(''person'', person)]\<rparr>"


section \<open>Notions used in the proofs about sorting\<close>

text \<open>
  A strict weak order on a set: asymmetric, and with a transitive complement. \<open>tie\<close> is
  its equivalence, \<open>pass\<close> one pass of \<open>list_sort\<close> on comparable elements, \<open>passes\<close>
  and \<open>lexb\<close> a sequence of passes and the order it produces.
\<close>

definition swo :: "'a set \<Rightarrow> ('a \<Rightarrow> 'a \<Rightarrow> bool) \<Rightarrow> bool" where
  "swo S lt = ((\<forall>a\<in>S. \<forall>b\<in>S. lt a b \<longrightarrow> \<not> lt b a) \<and>
               (\<forall>a\<in>S. \<forall>b\<in>S. \<forall>c\<in>S. \<not> lt a b \<longrightarrow> \<not> lt b c \<longrightarrow> \<not> lt a c))"

definition tie :: "('a \<Rightarrow> 'a \<Rightarrow> bool) \<Rightarrow> 'a \<Rightarrow> 'a \<Rightarrow> bool" where
  "tie lt a b = (\<not> lt a b \<and> \<not> lt b a)"

definition pass :: "('a \<Rightarrow> 'a \<Rightarrow> bool) \<Rightarrow> bool \<Rightarrow> 'a list \<Rightarrow> 'a list" where
  "pass lt reverse xs = (if reverse then rev (stable_sort lt (rev xs)) else stable_sort lt xs)"

definition before :: "('a \<Rightarrow> 'a \<Rightarrow> bool) \<Rightarrow> bool \<Rightarrow> 'a \<Rightarrow> 'a \<Rightarrow> bool" where
  "before lt reverse a b = (if reverse then lt b a else lt a b)"

fun passes :: "(('a \<Rightarrow> 'a \<Rightarrow> bool) \<times> bool) list \<Rightarrow> 'a list \<Rightarrow> 'a list" where
  "passes [] xs = xs"
| "passes (p # ps) xs = passes ps (pass (fst p) (snd p) xs)"

fun lexb :: "(('a \<Rightarrow> 'a \<Rightarrow> bool) \<times> bool) list \<Rightarrow> 'a \<Rightarrow> 'a \<Rightarrow> bool" where
  "lexb [] a b = False"
| "lexb (p # ps) a b = (before (fst p) (snd p) a b \<or> (tie (fst p) a b \<and> lexb ps a b))"

definition ties :: "(('a \<Rightarrow> 'a \<Rightarrow> bool) \<times> bool) list \<Rightarrow> 'a \<Rightarrow> 'a \<Rightarrow> bool" where
  "ties ps a b = list_all (\<lambda>p. tie (fst p) a b) ps"

definition ordered_on :: "string \<Rightarrow> row set \<Rightarrow> bool" where
  "ordered_on c S = (\<forall>a\<in>S. \<forall>b\<in>S. \<exists>u v. dict_get a c = Some u \<and> dict_get b c = Some v \<and> py_lt u v \<noteq> None)"

definition enc :: "order_key \<Rightarrow> (row \<Rightarrow> row \<Rightarrow> bool) \<times> bool" where
  "enc ob = (cell_lt (column ob), direction ob = ''DESC'')"


section \<open>Notions used in the proofs about literals\<close>






















section \<open>Properties of insert, update and delete\<close>

lemma dict_get_None_iff: "dict_get d k = None \<longleftrightarrow> k \<notin> set (keys d)"
  by (simp add: dict_get_def keys_def map_of_eq_None_iff)

lemma check_record_None_iff:
  "check_record sch items = None \<longleftrightarrow> list_all (cell_ok sch) items"
  by (induction items) (auto simp: cell_ok_def split: option.splits if_splits)

lemma check_record_Some:
  "check_record sch items = Some e \<Longrightarrow> set (keys items) \<subseteq> set (keys sch) \<Longrightarrow>
     \<exists>c v ty. (c, v) \<in> set items \<and> dict_get sch c = Some ty \<and> \<not> validate_type v ty \<and> e = TypeError_column c ty"
proof (induction items)
  case Nil then show ?case by simp
next
  case (Cons a items)
  obtain c v where a: "a = (c, v)" by (cases a)
  show ?case
  proof (cases "dict_get sch c")
    case None
    then have "c \<notin> set (keys sch)" by (simp add: dict_get_None_iff)
    with Cons.prems a show ?thesis by (simp add: keys_def)
  next
    case (Some ty)
    show ?thesis
    proof (cases "validate_type v ty")
      case True
      with Cons a Some show ?thesis by (auto simp: keys_def)
    next
      case False
      with Cons.prems a Some show ?thesis by auto
    qed
  qed
qed

text \<open>
  Claim C5. \<open>Table_insert\<close> fails with \<open>ValueError_schema\<close> (SchemaMismatch) when the key
  set of the record differs from the key set of the schema; when the key sets agree and
  some value fails validation against the declared type of its column, it fails with
  \<open>TypeError_column\<close> (TypeMismatch) for such a column; in both cases the table is
  returned as it was. Otherwise the record is appended after the existing rows, which
  keep their order.
\<close>

theorem Table_insert_outcomes:
  "(set (keys record) \<noteq> set (keys (schema t)) \<longrightarrow>
      Table_insert t record = (Inl ValueError_schema, t)) \<and>
   (set (keys record) = set (keys (schema t)) \<and> \<not> list_all (cell_ok (schema t)) record \<longrightarrow>
      (\<exists>c v ty. (c, v) \<in> set record \<and> dict_get (schema t) c = Some ty \<and> \<not> validate_type v ty \<and>
         Table_insert t record = (Inl (TypeError_column c ty), t))) \<and>
   (set (keys record) = set (keys (schema t)) \<and> list_all (cell_ok (schema t)) record \<longrightarrow>
      Table_insert t record = (Inr (), t\<lparr>rows := rows t @ [record]\<rparr>))"
proof (intro conjI impI)
  assume "set (keys record) \<noteq> set (keys (schema t))"
  then show "Table_insert t record = (Inl ValueError_schema, t)"
    by (simp add: Table_insert_def)
next
  assume h: "set (keys record) = set (keys (schema t)) \<and> \<not> list_all (cell_ok (schema t)) record"
  then obtain e where e: "check_record (schema t) record = Some e"
    using check_record_None_iff [of "schema t" "record"] by (cases "check_record (schema t) record") auto
  from check_record_Some [OF e] h
  obtain c v ty where "(c, v) \<in> set record" "dict_get (schema t) c = Some ty"
    "\<not> validate_type v ty" "e = TypeError_column c ty" by auto
  with h e show "\<exists>c v ty. (c, v) \<in> set record \<and> dict_get (schema t) c = Some ty \<and> \<not> validate_type v ty \<and>
         Table_insert t record = (Inl (TypeError_column c ty), t)"
    by (auto simp: Table_insert_def)
next
  assume h: "set (keys record) = set (keys (schema t)) \<and> list_all (cell_ok (schema t)) record"
  then have "check_record (schema t) record = None" by (simp add: check_record_None_iff)
  with h show "Table_insert t record = (Inr (), t\<lparr>rows := rows t @ [record]\<rparr>)"
    by (simp add: Table_insert_def)
qed

theorem Table_insert_outcomes_witness:
  "Table_insert person [(''id'', IntV 3)] = (Inl ValueError_schema, person) \<and>
   (\<exists>c v ty. (c, v) \<in> set [(''id'', IntV 3), (''name'', IntV 4)] \<and>
      dict_get (schema person) c = Some ty \<and> \<not> validate_type v ty \<and>
      Table_insert person [(''id'', IntV 3), (''name'', IntV 4)] = (Inl (TypeError_column c ty), person)) \<and>
   Table_insert person [(''id'', IntV 3), (''name'', StrV ''Cy'')] =
     (Inr (), person\<lparr>rows := rows person @ [[(''id'', IntV 3), (''name'', StrV ''Cy'')]]\<rparr>)"
  using Table_insert_outcomes [of "[(''id'', IntV 3)]" person]
    Table_insert_outcomes [of "[(''id'', IntV 3), (''name'', IntV 4)]" person]
    Table_insert_outcomes [of "[(''id'', IntV 3), (''name'', StrV ''Cy'')]" person]
  by (simp add: person_def keys_def cell_ok_def dict_get_def insert_commute)

lemma keys_dict_set: "set (keys (dict_set r c v)) = insert c (set (keys r))"
  by (induction r) (force simp: keys_def split: if_splits)+

lemma cells_dict_set: "set (dict_set r c v) \<subseteq> insert (c, v) (set r)"
  by (induction r) (auto split: if_splits)

lemma row_ok_dict_set:
  assumes "row_ok sch r" and "dict_get sch c = Some ty" and "validate_type v ty"
  shows "row_ok sch (dict_set r c v)"
proof -
  have "c \<in> set (keys sch)" using assms(2) dict_get_None_iff [of sch c] by auto
  then have k: "set (keys (dict_set r c v)) = set (keys sch)"
    using assms(1) by (auto simp: keys_dict_set row_ok_def)
  have "cell_ok sch (c, v)" using assms(2,3) by (simp add: cell_ok_def)
  then have "list_all (cell_ok sch) (dict_set r c v)"
    using assms(1) cells_dict_set [of r c v] by (auto simp: row_ok_def list_all_iff)
  with k show ?thesis by (simp add: row_ok_def)
qed

lemma row_ok_update_row: "row_ok sch r \<Longrightarrow> row_ok sch (snd (update_row sch items r))"
proof (induction items arbitrary: r)
  case Nil then show ?case by simp
next
  case (Cons a items)
  obtain c v where a: "a = (c, v)" by (cases a)
  show ?case
  proof (cases "dict_get sch c")
    case None with Cons a show ?thesis by simp
  next
    case (Some ty)
    show ?thesis
    proof (cases "validate_type v ty")
      case True
      then have "row_ok sch (dict_set r c v)" using Cons.prems Some by (rule_tac row_ok_dict_set)
      from Cons.IH [OF this] a Some True show ?thesis by simp
    next
      case False with Cons.prems a Some show ?thesis by simp
    qed
  qed
qed

lemma rows_ok_update_rows:
  "list_all (row_ok sch) rs \<Longrightarrow> list_all (row_ok sch) (snd (update_rows sch updates w rs cnt))"
proof (induction rs arbitrary: cnt)
  case Nil then show ?case by simp
next
  case (Cons r rs)
  have r': "row_ok sch (snd (update_row sch updates r))"
    using Cons.prems by (simp add: row_ok_update_row)
  show ?case
    using Cons.prems r' Cons.IH [of "cnt + 1"] Cons.IH [of cnt]
    by (auto split: prod.splits option.splits)
qed

text \<open>
  Claim C8. When every row of a table satisfies the row invariant, every row still
  satisfies it after an insert, after an update and after a delete, whatever their
  outcome: the table returned with a \<open>TypeError_column\<close> by an aborted update is
  covered as well.
\<close>

theorem row_invariant_preserved:
  assumes "table_ok t"
  shows "table_ok (snd (Table_insert t record)) \<and>
         table_ok (snd (Table_update t updates w)) \<and>
         table_ok (snd (Table_delete t w))"
proof (intro conjI)
  show "table_ok (snd (Table_insert t record))"
    using assms
    by (auto simp: Table_insert_def table_ok_def row_ok_def check_record_None_iff split: option.splits)
  show "table_ok (snd (Table_update t updates w))"
    using assms rows_ok_update_rows [of "schema t" "rows t" updates w 0]
    by (auto simp: Table_update_def table_ok_def split: prod.splits)
  show "table_ok (snd (Table_delete t w))"
    using assms by (simp add: Table_delete_def table_ok_def list_all_iff Let_def)
qed

theorem row_invariant_preserved_witness:
  "table_ok person \<and>
   table_ok (snd (Table_insert person [(''id'', IntV 3), (''name'', StrV ''Cy'')])) \<and>
   table_ok (snd (Table_update person [(''id'', IntV 7), (''name'', IntV 0)] None)) \<and>
   fst (Table_update person [(''id'', IntV 7), (''name'', IntV 0)] None) = Inl (TypeError_column ''name'' CHAR') \<and>
   table_ok (snd (Table_delete person (Some (\<lambda>r. dict_get r ''id'' = Some (IntV 1)))))"
proof -
  have h: "table_ok person"
    by (simp add: table_ok_def row_ok_def cell_ok_def person_def keys_def dict_get_def insert_commute)
  have "fst (Table_update person [(''id'', IntV 7), (''name'', IntV 0)] None) = Inl (TypeError_column ''name'' CHAR')"
    by (simp add: Table_update_def person_def matches_def dict_get_def)
  with h row_invariant_preserved [OF h] show ?thesis by simp
qed

lemma applied_Cons:
  "applied sch (cv # items) r =
     (if dict_get sch (fst cv) \<noteq> None then applied sch items (dict_set r (fst cv) (snd cv))
      else applied sch items r)"
  by (simp add: applied_def)

lemma update_row_abort:
  "find (invalid sch) items = Some (c, v) \<Longrightarrow> dict_get sch c = Some ty \<Longrightarrow>
     update_row sch items r =
       (Some (TypeError_column c ty), applied sch (takeWhile (\<lambda>a. \<not> invalid sch a) items) r)"
proof (induction items arbitrary: r)
  case Nil then show ?case by simp
next
  case (Cons a items)
  obtain c' v' where a: "a = (c', v')" by (cases a)
  show ?case
  proof (cases "invalid sch a")
    case True
    with Cons.prems a show ?thesis
      by (auto simp: invalid_def applied_def split: option.splits)
  next
    case False
    then have f: "find (invalid sch) items = Some (c, v)" using Cons.prems by simp
    show ?thesis
      using False a Cons.IH [OF f Cons.prems(2)]
      by (auto simp: invalid_def applied_Cons split: option.splits)
  qed
qed

lemma update_rows_abort:
  assumes "find (invalid sch) updates = Some (c, v)" and "dict_get sch c = Some ty"
  shows "list_ex (matches w) rs \<Longrightarrow>
     \<exists>pre r post. rs = pre @ r # post \<and> \<not> list_ex (matches w) pre \<and> matches w r \<and>
       update_rows sch updates w rs cnt =
         (Inl (TypeError_column c ty),
          pre @ applied sch (takeWhile (\<lambda>a. \<not> invalid sch a) updates) r # post)"
proof (induction rs)
  case Nil then show ?case by simp
next
  case (Cons x rs)
  show ?case
  proof (cases "matches w x")
    case True
    have "update_rows sch updates w (x # rs) cnt =
         (Inl (TypeError_column c ty),
          [] @ applied sch (takeWhile (\<lambda>a. \<not> invalid sch a) updates) x # rs)"
      using True update_row_abort [OF assms, of x] by simp
    with True show ?thesis by (intro exI [of _ "[]"] exI [of _ x] exI [of _ rs]) simp
  next
    case False
    then have "list_ex (matches w) rs" using Cons.prems by simp
    from Cons.IH [OF this] obtain pre r post where
      h: "rs = pre @ r # post" "\<not> list_ex (matches w) pre" "matches w r"
         "update_rows sch updates w rs cnt =
           (Inl (TypeError_column c ty),
            pre @ applied sch (takeWhile (\<lambda>a. \<not> invalid sch a) updates) r # post)"
      by blast
    with False show ?thesis
      by (intro exI [of _ "x # pre"] exI [of _ r] exI [of _ post]) simp
  qed
qed

text \<open>
  Claim C4. When an update has an invalid assignment and some row matches the predicate,
  the update stops with \<open>TypeError_column\<close> (TypeMismatch) for the first invalid
  assignment, at the first matching row. Nothing is rolled back: the rows before it
  (none of which matched) and the rows after it are as they were, and the matching row
  keeps every assignment written before the invalid one.
\<close>

theorem Table_update_abort_keeps_mutations:
  assumes "list_ex (invalid (schema t)) updates" and "list_ex (matches w) (rows t)"
  shows "\<exists>pre r post c v ty.
      rows t = pre @ r # post \<and> \<not> list_ex (matches w) pre \<and> matches w r \<and>
      find (invalid (schema t)) updates = Some (c, v) \<and> dict_get (schema t) c = Some ty \<and>
      Table_update t updates w =
        (Inl (TypeError_column c ty),
         t\<lparr>rows := pre @ applied (schema t) (takeWhile (\<lambda>a. \<not> invalid (schema t) a) updates) r # post\<rparr>)"
proof -
  from assms(1) obtain a where a: "find (invalid (schema t)) updates = Some a"
    by (cases "find (invalid (schema t)) updates") (auto simp: find_None_iff list_ex_iff)
  obtain c v where cv: "a = (c, v)" by (cases a)
  from a have "invalid (schema t) a" by (auto simp: find_Some_iff)
  then obtain ty where ty: "dict_get (schema t) c = Some ty"
    using cv by (auto simp: invalid_def split: option.splits)
  from update_rows_abort [OF a [unfolded cv] ty assms(2), of 0]
  obtain pre r post where "rows t = pre @ r # post" "\<not> list_ex (matches w) pre" "matches w r"
    "update_rows (schema t) updates w (rows t) 0 =
       (Inl (TypeError_column c ty),
        pre @ applied (schema t) (takeWhile (\<lambda>a. \<not> invalid (schema t) a) updates) r # post)"
    by blast
  with a cv ty show ?thesis by (auto simp: Table_update_def)
qed

theorem Table_update_abort_keeps_mutations_witness:
  "list_ex (invalid (schema person)) [(''id'', IntV 7), (''name'', IntV 0)] \<and>
   list_ex (matches None) (rows person) \<and>
   Table_update person [(''id'', IntV 7), (''name'', IntV 0)] None =
     (Inl (TypeError_column ''name'' CHAR'),
      person\<lparr>rows := [[(''id'', IntV 7), (''name'', StrV ''Ann'')],
                       [(''id'', IntV 2), (''name'', StrV ''Bea'')]]\<rparr>) \<and>
   snd (Table_update person [(''id'', IntV 7), (''name'', IntV 0)] None) \<noteq> person"
proof -
  have h1: "list_ex (invalid (schema person)) [(''id'', IntV 7), (''name'', IntV 0)]"
    by (simp add: invalid_def person_def dict_get_def)
  have h2: "list_ex (matches None) (rows person)"
    by (simp add: matches_def person_def)
  have e: "Table_update person [(''id'', IntV 7), (''name'', IntV 0)] None =
     (Inl (TypeError_column ''name'' CHAR'),
      person\<lparr>rows := [[(''id'', IntV 7), (''name'', StrV ''Ann'')],
                       [(''id'', IntV 2), (''name'', StrV ''Bea'')]]\<rparr>)"
    by (simp add: Table_update_def person_def matches_def dict_get_def)
  have "snd (Table_update person [(''id'', IntV 7), (''name'', IntV 0)] None) \<noteq> person"
    by (simp add: Table_update_def person_def matches_def dict_get_def)
  with h1 h2 e Table_update_abort_keeps_mutations [OF h1 h2] show ?thesis by simp
qed

section \<open>Properties of select\<close>

lemmas eval_defs = Table_select_def result_columns_def matches_def keys_def dict_get_def
  list_sort_def stable_sort_def key_lt_def triple_lt_def

subsection \<open>Projection\<close>

lemma dict_get_dict_set: "dict_get (dict_set d k v) k' = (if k' = k then Some v else dict_get d k')"
  by (induction d) (auto simp: dict_get_def)

lemma dict_set_fresh: "k \<notin> set (keys d) \<Longrightarrow> dict_set d k v = d @ [(k, v)]"
  by (induction d) (auto simp: keys_def)

lemma project_Inr:
  "project r cols acc = Inr r' \<Longrightarrow>
     set (keys r') = set (keys acc) \<union> set cols \<and>
     (\<forall>c. dict_get r' c = (if c \<in> set cols then dict_get r c else dict_get acc c))"
proof (induction cols arbitrary: acc)
  case Nil then show ?case by simp
next
  case (Cons col cols)
  from Cons.prems obtain v where v: "dict_get r col = Some v"
    and p: "project r cols (dict_set acc col v) = Inr r'"
    by (auto split: option.splits)
  from Cons.IH [OF p] v show ?case
    by (auto simp: keys_dict_set dict_get_dict_set)
qed

lemma project_total:
  "set cols \<subseteq> set (keys r) \<Longrightarrow> \<exists>r'. project r cols acc = Inr r'"
proof (induction cols arbitrary: acc)
  case Nil then show ?case by simp
next
  case (Cons col cols)
  then obtain v where "dict_get r col = Some v"
    using dict_get_None_iff [of r col] by (cases "dict_get r col") auto
  with Cons show ?case by simp
qed


lemma collect_Inr:
  "collect cols w rs = Inr res \<Longrightarrow>
     list_all2 (\<lambda>r r'. project r cols [] = Inr r') (filter (matches w) rs) res"
proof (induction rs arbitrary: res)
  case Nil then show ?case by simp
next
  case (Cons r rs)
  then show ?case by (auto split: if_splits sum.splits)
qed

lemma collect_total:
  "\<forall>r\<in>set rs. set cols \<subseteq> set (keys r) \<Longrightarrow> \<exists>res. collect cols w rs = Inr res"
proof (induction rs)
  case Nil then show ?case by simp
next
  case (Cons r rs)
  then obtain res where "collect cols w rs = Inr res" by auto
  moreover obtain r' where "project r cols [] = Inr r'"
    using project_total [of cols r "[]"] Cons.prems by auto
  ultimately show ?case by simp
qed





subsection \<open>Stable sorting by one key\<close>

lemma swo_asym: "swo S lt \<Longrightarrow> a \<in> S \<Longrightarrow> b \<in> S \<Longrightarrow> lt a b \<Longrightarrow> \<not> lt b a"
  unfolding swo_def by blast

lemma swo_negtrans: "swo S lt \<Longrightarrow> a \<in> S \<Longrightarrow> b \<in> S \<Longrightarrow> c \<in> S \<Longrightarrow> \<not> lt a b \<Longrightarrow> \<not> lt b c \<Longrightarrow> \<not> lt a c"
  unfolding swo_def by blast

lemma swo_flip: "swo S lt \<Longrightarrow> swo S (\<lambda>a b. lt b a)"
  unfolding swo_def by blast

lemma mset_insort_by: "mset (insort_by lt x ys) = add_mset x (mset ys)"
  by (induction ys) auto

lemma set_insort_by: "set (insort_by lt x ys) = insert x (set ys)"
  by (induction ys) auto

lemma stable_sort_Cons: "stable_sort lt (x # xs) = insort_by lt x (stable_sort lt xs)"
  by (simp add: stable_sort_def)

lemma stable_sort_Nil: "stable_sort lt [] = []"
  by (simp add: stable_sort_def)

lemma mset_stable_sort: "mset (stable_sort lt xs) = mset xs"
  by (induction xs) (simp_all add: stable_sort_Nil stable_sort_Cons mset_insort_by)

lemma set_stable_sort: "set (stable_sort lt xs) = set xs"
  by (induction xs) (simp_all add: stable_sort_Nil stable_sort_Cons set_insort_by)

lemma sorted_insort_by:
  assumes "swo S lt" and "x \<in> S"
  shows "set ys \<subseteq> S \<Longrightarrow> sorted_wrt (\<lambda>a b. \<not> lt b a) ys \<Longrightarrow> sorted_wrt (\<lambda>a b. \<not> lt b a) (insort_by lt x ys)"
proof (induction ys)
  case Nil then show ?case by simp
next
  case (Cons y ys)
  show ?case
  proof (cases "lt y x")
    case True
    have "\<not> lt x y" using swo_asym [OF assms(1) _ assms(2) True] Cons.prems by auto
    with True Cons show ?thesis by (auto simp: set_insort_by)
  next
    case False
    have "\<And>z. z \<in> set ys \<Longrightarrow> \<not> lt z x"
    proof -
      fix z assume z: "z \<in> set ys"
      then have "\<not> lt z y" using Cons.prems by auto
      from swo_negtrans [OF assms(1) _ _ assms(2) this False] z Cons.prems
      show "\<not> lt z x" by auto
    qed
    with False Cons.prems show ?thesis by auto
  qed
qed

lemma sorted_stable_sort:
  assumes "swo S lt"
  shows "set xs \<subseteq> S \<Longrightarrow> sorted_wrt (\<lambda>a b. \<not> lt b a) (stable_sort lt xs)"
proof (induction xs)
  case Nil then show ?case by (simp add: stable_sort_Nil)
next
  case (Cons x xs)
  then show ?case
    using sorted_insort_by [OF assms, of x "stable_sort lt xs"]
    by (simp add: stable_sort_Cons set_stable_sort)
qed

lemma tie_trans:
  "swo S lt \<Longrightarrow> a \<in> S \<Longrightarrow> b \<in> S \<Longrightarrow> c \<in> S \<Longrightarrow> tie lt a b \<Longrightarrow> tie lt b c \<Longrightarrow> tie lt a c"
  unfolding tie_def swo_def by blast

lemma tie_sym: "tie lt a b = tie lt b a"
  unfolding tie_def by blast

lemma stable_insort_by:
  assumes "swo S lt" and "x \<in> S" and "z \<in> S"
  shows "set ys \<subseteq> S \<Longrightarrow>
     filter (tie lt z) (insort_by lt x ys) =
       (if tie lt z x then x # filter (tie lt z) ys else filter (tie lt z) ys)"
proof (induction ys)
  case Nil then show ?case by simp
next
  case (Cons y ys)
  then have y: "y \<in> S" by simp
  show ?case
  proof (cases "lt y x")
    case True
    have "\<not> (tie lt z y \<and> tie lt z x)"
    proof
      assume h: "tie lt z y \<and> tie lt z x"
      then have "tie lt y z" by (simp add: tie_sym)
      from tie_trans [OF assms(1) y assms(3) assms(2) this] h have "tie lt y x" by simp
      with True show False by (simp add: tie_def)
    qed
    with True Cons show ?thesis by auto
  next
    case False
    then show ?thesis by simp
  qed
qed

lemma stable_stable_sort:
  assumes "swo S lt" and "z \<in> S"
  shows "set xs \<subseteq> S \<Longrightarrow> filter (tie lt z) (stable_sort lt xs) = filter (tie lt z) xs"
proof (induction xs)
  case Nil then show ?case by (simp add: stable_sort_Nil)
next
  case (Cons x xs)
  then show ?case
    using stable_insort_by [OF assms(1) _ assms(2), of x "stable_sort lt xs"]
    by (simp add: stable_sort_Cons set_stable_sort)
qed

lemma mset_pass: "mset (pass lt reverse xs) = mset xs"
  by (simp add: pass_def mset_stable_sort)

lemma set_pass: "set (pass lt reverse xs) = set xs"
  by (simp add: pass_def set_stable_sort)

lemma sorted_pass:
  assumes "swo S lt" and "set xs \<subseteq> S"
  shows "sorted_wrt (\<lambda>a b. \<not> before lt reverse b a) (pass lt reverse xs)"
proof (cases reverse)
  case False
  then show ?thesis using sorted_stable_sort [OF assms] by (simp add: pass_def before_def)
next
  case True
  have "sorted_wrt (\<lambda>a b. \<not> lt b a) (stable_sort lt (rev xs))"
    using sorted_stable_sort [OF assms(1), of "rev xs"] assms(2) by simp
  then have "sorted_wrt (\<lambda>a b. \<not> lt a b) (rev (stable_sort lt (rev xs)))"
    by (simp add: sorted_wrt_rev)
  with True show ?thesis by (simp add: pass_def before_def)
qed

lemma stable_pass:
  assumes "swo S lt" and "set xs \<subseteq> S" and "z \<in> S"
  shows "filter (tie lt z) (pass lt reverse xs) = filter (tie lt z) xs"
proof (cases reverse)
  case False
  then show ?thesis using stable_stable_sort [OF assms(1,3,2)] by (simp add: pass_def)
next
  case True
  have "filter (tie lt z) (stable_sort lt (rev xs)) = filter (tie lt z) (rev xs)"
    using stable_stable_sort [OF assms(1,3), of "rev xs"] assms(2) by simp
  then have "filter (tie lt z) (rev (stable_sort lt (rev xs))) = filter (tie lt z) xs"
    by (simp add: rev_filter [symmetric])
  with True show ?thesis by (simp add: pass_def)
qed

lemma sorted_wrt_filter_iff:
  "sorted_wrt R (filter P xs) = sorted_wrt (\<lambda>a b. P a \<and> P b \<longrightarrow> R a b) xs"
  by (induction xs) auto

lemma float_lt_irrefl: "\<not> float_lt a a"
  by (cases a) auto

lemma float_lt_asym: "float_lt a b \<Longrightarrow> \<not> float_lt b a"
  by (cases a; cases b) auto

lemma float_lt_negtrans: "\<not> float_lt a b \<Longrightarrow> \<not> float_lt b c \<Longrightarrow> \<not> float_lt a c"
  by (cases a; cases b; cases c) auto

lemma float_lt_total: "\<not> float_lt a b \<Longrightarrow> \<not> float_lt b a \<Longrightarrow> a = b"
  by (cases a; cases b) auto

lemma str_lt_irrefl: "\<not> str_lt a a"
  by (induction a) auto

lemma str_lt_asym: "str_lt a b \<Longrightarrow> \<not> str_lt b a"
  by (induction a b rule: str_lt.induct) auto

lemma str_lt_negtrans: "\<not> str_lt a b \<Longrightarrow> \<not> str_lt b c \<Longrightarrow> \<not> str_lt a c"
proof (induction a b arbitrary: c rule: str_lt.induct)
  case 1 then show ?case by (cases c) auto
next
  case (2 d b) then show ?case by simp
next
  case (3 c' a) then show ?case by (cases c) auto
next
  case (4 c' a d b)
  then show ?case by (cases c) (auto split: if_splits)
qed

lemma str_lt_total: "\<not> str_lt a b \<Longrightarrow> \<not> str_lt b a \<Longrightarrow> a = b"
proof (induction a b rule: str_lt.induct)
  case (4 c a d b)
  then have "(of_char c :: nat) = of_char d" by auto
  then have "c = d" by simp
  with 4 show ?case by auto
qed auto

lemma triple_lt_asym: "triple_lt a b c a' b' c' \<Longrightarrow> \<not> triple_lt a' b' c' a b c"
  by (auto simp: triple_lt_def)

lemma triple_lt_negtrans:
  "\<not> triple_lt a b c a' b' c' \<Longrightarrow> \<not> triple_lt a' b' c' a'' b'' c'' \<Longrightarrow> \<not> triple_lt a b c a'' b'' c''"
  unfolding triple_lt_def by auto

lemma triple_lt_total:
  "\<not> triple_lt a b c a' b' c' \<Longrightarrow> \<not> triple_lt a' b' c' a b c \<Longrightarrow> a = a' \<and> b = b' \<and> c = c'"
  unfolding triple_lt_def by auto

lemma py_lt_asym: "py_lt u v = Some True \<Longrightarrow> py_lt v u = Some False"
  by (cases u; cases v) (auto simp: float_lt_asym str_lt_asym triple_lt_asym)

lemma py_lt_defined_sym: "py_lt u v \<noteq> None \<Longrightarrow> py_lt v u \<noteq> None"
  by (cases u; cases v) auto

lemma float_lt_negtrans_int1:
  "\<not> (a::int) < b \<Longrightarrow> \<not> float_lt (Fin (of_int b)) c \<Longrightarrow> \<not> float_lt (Fin (of_int a)) c"
  using float_lt_negtrans [of "Fin (of_int a)" "Fin (of_int b)" c] by simp

lemma float_lt_negtrans_int2:
  "\<not> float_lt x (Fin (of_int a)) \<Longrightarrow> \<not> (a::int) < b \<Longrightarrow> \<not> float_lt x (Fin (of_int b))"
  using float_lt_negtrans [of x "Fin (of_int a)" "Fin (of_int b)"] by simp

lemma py_lt_negtrans:
  "py_lt u v = Some False \<Longrightarrow> py_lt v w = Some False \<Longrightarrow> py_lt u w = Some False"
  by (cases u; cases v; cases w)
     (auto dest: float_lt_negtrans float_lt_negtrans_int1 float_lt_negtrans_int2
                 str_lt_negtrans triple_lt_negtrans)

lemma py_lt_tie_eq:
  "py_lt u v \<noteq> None \<Longrightarrow> (py_lt u v = Some False \<and> py_lt v u = Some False) = py_eq u v"
  by (cases u; cases v)
     (auto dest: float_lt_total str_lt_total triple_lt_total
           simp: float_lt_irrefl str_lt_irrefl triple_lt_def)

lemma validate_type_ordered:
  "validate_type u ty \<Longrightarrow> validate_type v ty \<Longrightarrow> py_lt u v \<noteq> None"
  by (cases ty; cases u; cases v) auto

lemma set_passes: "set (passes ps xs) = set xs"
  by (induction ps arbitrary: xs) (simp_all add: set_pass)

lemma mset_passes: "mset (passes ps xs) = mset xs"
  by (induction ps arbitrary: xs) (simp_all add: mset_pass)

lemma tie_refl: "swo S lt \<Longrightarrow> a \<in> S \<Longrightarrow> tie lt a a"
  unfolding swo_def tie_def by blast

lemma tie_before: "tie lt a b = (\<not> before lt rv a b \<and> \<not> before lt rv b a)"
  by (auto simp: tie_def before_def)

lemma pass_step_sorted:
  assumes "swo S lt" and "set cur \<subseteq> S"
    and "sorted_wrt (\<lambda>a b. \<not> lexb done b a) cur"
  shows "sorted_wrt (\<lambda>a b. \<not> lexb ((lt, rv) # done) b a) (pass lt rv cur)"
proof -
  let ?cur' = "pass lt rv cur"
  have S': "set ?cur' \<subseteq> S" using assms(2) by (simp add: set_pass)
  have A: "sorted_wrt (\<lambda>a b. \<not> before lt rv b a) ?cur'"
    by (rule sorted_pass [OF assms(1,2)])
  have F: "\<And>x. x \<in> S \<Longrightarrow> sorted_wrt (\<lambda>a b. tie lt x a \<and> tie lt x b \<longrightarrow> \<not> lexb done b a) ?cur'"
  proof -
    fix x assume x: "x \<in> S"
    have "sorted_wrt (\<lambda>a b. \<not> lexb done b a) (filter (tie lt x) cur)"
      using assms(3) by (rule sorted_wrt_filter)
    then have "sorted_wrt (\<lambda>a b. \<not> lexb done b a) (filter (tie lt x) ?cur')"
      by (simp add: stable_pass [OF assms(1,2) x])
    then show "sorted_wrt (\<lambda>a b. tie lt x a \<and> tie lt x b \<longrightarrow> \<not> lexb done b a) ?cur'"
      by (simp add: sorted_wrt_filter_iff)
  qed
  show ?thesis
    unfolding sorted_wrt_iff_nth_less
  proof (intro allI impI)
    fix i j assume i: "i < j" and j: "j < length ?cur'"
    let ?a = "?cur' ! i" and ?b = "?cur' ! j"
    have a: "?a \<in> S" and b: "?b \<in> S" using S' i j by (auto simp: subset_iff)
    have 1: "\<not> before lt rv ?b ?a" using A i j by (simp add: sorted_wrt_iff_nth_less)
    have 2: "tie lt ?a ?b \<longrightarrow> \<not> lexb done ?b ?a"
      using F [OF a] i j tie_refl [OF assms(1) a] by (simp add: sorted_wrt_iff_nth_less)
    from 1 2 show "\<not> lexb ((lt, rv) # done) ?b ?a"
      by (auto simp: tie_sym [of lt ?b ?a])
  qed
qed

lemma pass_step_stable:
  assumes "swo S lt" and "set cur \<subseteq> S" and "x \<in> S"
    and "filter (ties done x) cur = filter (ties done x) orig"
  shows "filter (ties ((lt, rv) # done) x) (pass lt rv cur) = filter (ties ((lt, rv) # done) x) orig"
proof -
  have e: "ties ((lt, rv) # done) x = (\<lambda>y. tie lt x y \<and> ties done x y)"
    by (auto simp: ties_def)
  have "filter (ties ((lt, rv) # done) x) (pass lt rv cur) =
        filter (ties done x) (filter (tie lt x) (pass lt rv cur))"
    by (simp add: e conj_commute)
  also have "\<dots> = filter (ties done x) (filter (tie lt x) cur)"
    by (simp only: stable_pass [OF assms(1,2,3)])
  also have "\<dots> = filter (tie lt x) (filter (ties done x) cur)"
    by (simp add: conj_commute)
  also have "\<dots> = filter (tie lt x) (filter (ties done x) orig)"
    by (simp only: assms(4))
  also have "\<dots> = filter (ties ((lt, rv) # done) x) orig"
    by (simp add: e conj_commute)
  finally show ?thesis .
qed

lemma passes_inv:
  "\<forall>p\<in>set ps. swo S (fst p) \<Longrightarrow> set cur \<subseteq> S \<Longrightarrow>
   sorted_wrt (\<lambda>a b. \<not> lexb done b a) cur \<Longrightarrow>
   (\<forall>x\<in>S. filter (ties done x) cur = filter (ties done x) orig) \<Longrightarrow>
     sorted_wrt (\<lambda>a b. \<not> lexb (rev ps @ done) b a) (passes ps cur) \<and>
     (\<forall>x\<in>S. filter (ties (rev ps @ done) x) (passes ps cur) = filter (ties (rev ps @ done) x) orig)"
proof (induction ps arbitrary: cur "done")
  case Nil then show ?case by simp
next
  case (Cons p ps)
  obtain lt rv where p: "p = (lt, rv)" by (cases p)
  have sw: "swo S lt" using Cons.prems(1) p by simp
  have 1: "sorted_wrt (\<lambda>a b. \<not> lexb ((lt, rv) # done) b a) (pass lt rv cur)"
    by (rule pass_step_sorted [OF sw Cons.prems(2,3)])
  have 2: "\<forall>x\<in>S. filter (ties ((lt, rv) # done) x) (pass lt rv cur) = filter (ties ((lt, rv) # done) x) orig"
    using pass_step_stable [OF sw Cons.prems(2)] Cons.prems(4) by blast
  have 3: "set (pass lt rv cur) \<subseteq> S" using Cons.prems(2) by (simp add: set_pass)
  have 4: "\<forall>p\<in>set ps. swo S (fst p)" using Cons.prems(1) by simp
  from Cons.IH [OF 4 3 1 2] show ?case by (simp add: p)
qed

lemma passes_sorted_stable:
  assumes "\<forall>p\<in>set ps. swo S (fst p)" and "set xs \<subseteq> S"
  shows "sorted_wrt (\<lambda>a b. \<not> lexb ps b a) (passes (rev ps) xs) \<and>
     (\<forall>x\<in>S. filter (ties ps x) (passes (rev ps) xs) = filter (ties ps x) xs)"
proof -
  have 1: "\<forall>p\<in>set (rev ps). swo S (fst p)" using assms(1) by simp
  have 2: "sorted_wrt (\<lambda>a b. \<not> lexb [] b a) xs" by simp
  have 3: "\<forall>x\<in>S. filter (ties [] x) xs = filter (ties [] x) xs" by simp
  from passes_inv [OF 1 assms(2) 2 3] show ?thesis by simp
qed

lemma swo_cell_lt: "ordered_on c S \<Longrightarrow> swo S (cell_lt c)"
  unfolding swo_def
proof (intro conjI ballI impI)
  fix a b assume o: "ordered_on c S" and a: "a \<in> S" and b: "b \<in> S" and l: "cell_lt c a b"
  from o a b obtain u v where "dict_get a c = Some u" "dict_get b c = Some v"
    unfolding ordered_on_def by blast
  with l py_lt_asym [of u v] show "\<not> cell_lt c b a" by (simp add: cell_lt_def)
next
  fix a b d assume o: "ordered_on c S" and a: "a \<in> S" and b: "b \<in> S" and d: "d \<in> S"
    and 1: "\<not> cell_lt c a b" and 2: "\<not> cell_lt c b d"
  from o a b obtain u v where u: "dict_get a c = Some u" and v: "dict_get b c = Some v"
    and uv: "py_lt u v \<noteq> None" unfolding ordered_on_def by blast
  from o b d obtain v' w where v': "dict_get b c = Some v'" and w: "dict_get d c = Some w"
    and vw: "py_lt v' w \<noteq> None" unfolding ordered_on_def by blast
  from v v' have [simp]: "v' = v" by simp
  from 1 u v uv have "py_lt u v = Some False" by (auto simp: cell_lt_def)
  moreover from 2 v w vw have "py_lt v w = Some False" by (auto simp: cell_lt_def)
  ultimately have "py_lt u w = Some False" by (rule py_lt_negtrans)
  with u w show "\<not> cell_lt c a d" by (simp add: cell_lt_def)
qed

lemma tie_cell_eq:
  assumes "ordered_on c S" and "a \<in> S" and "b \<in> S"
  shows "tie (cell_lt c) a b = cell_eq c a b"
proof -
  from assms obtain u v where u: "dict_get a c = Some u" and v: "dict_get b c = Some v"
    and uv: "py_lt u v \<noteq> None" unfolding ordered_on_def by blast
  from uv have vu: "py_lt v u \<noteq> None" by (rule py_lt_defined_sym)
  have "tie (cell_lt c) a b = (py_lt u v = Some False \<and> py_lt v u = Some False)"
    using u v uv vu by (auto simp: tie_def cell_lt_def)
  also have "\<dots> = py_eq u v" by (rule py_lt_tie_eq [OF uv])
  finally show ?thesis using u v by (simp add: cell_eq_def)
qed

lemma sort_keys_ok:
  "\<forall>x\<in>set xs. dict_get x c \<noteq> None \<Longrightarrow> sort_keys c xs = Inr (map (\<lambda>x. the (dict_get x c)) xs)"
  by (induction xs) auto

lemma all_ordered_pairwise:
  "\<forall>u\<in>set ks. \<forall>v\<in>set ks. py_lt u v \<noteq> None \<Longrightarrow> all_ordered ks"
  by (induction ks) (auto simp: list_all_iff)

lemma insort_by_map:
  "\<forall>a\<in>insert x (set ys). \<forall>b\<in>insert x (set ys). lt' (g a) (g b) = lt a b \<Longrightarrow>
     insort_by lt' (g x) (map g ys) = map g (insort_by lt x ys)"
  by (induction ys) auto

lemma stable_sort_map:
  "\<forall>a\<in>set xs. \<forall>b\<in>set xs. lt' (g a) (g b) = lt a b \<Longrightarrow>
     stable_sort lt' (map g xs) = map g (stable_sort lt xs)"
proof (induction xs)
  case Nil then show ?case by (simp add: stable_sort_Nil)
next
  case (Cons x xs)
  have "stable_sort lt' (map g xs) = map g (stable_sort lt xs)" using Cons by simp
  moreover have "insort_by lt' (g x) (map g (stable_sort lt xs)) = map g (insort_by lt x (stable_sort lt xs))"
    using Cons.prems by (intro insort_by_map) (simp add: set_stable_sort)
  ultimately show ?case by (simp add: stable_sort_Cons)
qed

lemma pass_map:
  assumes "\<forall>a\<in>set xs. \<forall>b\<in>set xs. lt' (g a) (g b) = lt a b"
  shows "pass lt' rv (map g xs) = map g (pass lt rv xs)"
proof -
  have "stable_sort lt' (map g (rev xs)) = map g (stable_sort lt (rev xs))"
    using assms by (intro stable_sort_map) simp
  moreover have "stable_sort lt' (map g xs) = map g (stable_sort lt xs)"
    using assms by (intro stable_sort_map)
  ultimately show ?thesis by (simp add: pass_def rev_map)
qed

lemma list_sort_pass:
  assumes "ordered_on c (set xs)"
  shows "list_sort c rv xs = Inr (pass (cell_lt c) rv xs)"
proof -
  let ?f = "\<lambda>x. the (dict_get x c)"
  have d: "\<forall>x\<in>set xs. dict_get x c \<noteq> None" using assms unfolding ordered_on_def by fastforce
  then have k: "sort_keys c xs = Inr (map ?f xs)" by (rule sort_keys_ok)
  have "\<forall>u\<in>set (map ?f xs). \<forall>v\<in>set (map ?f xs). py_lt u v \<noteq> None"
    using assms unfolding ordered_on_def by fastforce
  then have o: "all_ordered (map ?f xs)" by (rule all_ordered_pairwise)
  have z: "zip (map ?f xs) xs = map (\<lambda>x. (?f x, x)) xs"
    by (induction xs) auto
  have "\<forall>a\<in>set xs. \<forall>b\<in>set xs. key_lt (?f a, a) (?f b, b) = cell_lt c a b"
  proof (intro ballI)
    fix a b assume "a \<in> set xs" "b \<in> set xs"
    with d obtain u v where "dict_get a c = Some u" "dict_get b c = Some v" by fastforce
    then show "key_lt (?f a, a) (?f b, b) = cell_lt c a b"
      by (simp add: key_lt_def cell_lt_def)
  qed
  then have "pass key_lt rv (map (\<lambda>x. (?f x, x)) xs) = map (\<lambda>x. (?f x, x)) (pass (cell_lt c) rv xs)"
    by (rule pass_map)
  then have "map snd (pass key_lt rv (zip (map ?f xs) xs)) = pass (cell_lt c) rv xs"
    by (simp add: z comp_def)
  with k o show ?thesis by (simp add: list_sort_def pass_def Let_def)
qed

lemma ordered_on_subset: "ordered_on c S \<Longrightarrow> T \<subseteq> S \<Longrightarrow> ordered_on c T"
  unfolding ordered_on_def by blast

lemma sort_passes_passes:
  "\<forall>ob\<in>set ps. ordered_on (column ob) S \<Longrightarrow> set xs \<subseteq> S \<Longrightarrow>
     sort_passes ps xs = Inr (passes (map enc ps) xs)"
proof (induction ps arbitrary: xs)
  case Nil then show ?case by simp
next
  case (Cons p ps)
  have "ordered_on (column p) (set xs)"
    using Cons.prems by (auto intro: ordered_on_subset)
  then have 1: "list_sort (column p) (direction p = ''DESC'') xs =
      Inr (pass (cell_lt (column p)) (direction p = ''DESC'') xs)" by (rule list_sort_pass)
  have "set (pass (cell_lt (column p)) (direction p = ''DESC'') xs) \<subseteq> S"
    using Cons.prems by (simp add: set_pass)
  with Cons 1 show ?case by (simp add: enc_def)
qed

lemma lexb_lex:
  "\<forall>ob\<in>set obs. ordered_on (column ob) S \<Longrightarrow> a \<in> S \<Longrightarrow> b \<in> S \<Longrightarrow>
     \<not> lexb (map enc obs) b a \<Longrightarrow> lex_before obs a b \<or> tied obs a b"
proof (induction obs)
  case Nil then show ?case by (simp add: tied_def)
next
  case (Cons ob obs)
  let ?lt = "cell_lt (column ob)" and ?rv = "direction ob = ''DESC''"
  have o: "ordered_on (column ob) S" using Cons.prems by simp
  have e: "fst (enc ob) = ?lt" "snd (enc ob) = ?rv" by (simp_all add: enc_def)
  have nb: "\<not> before ?lt ?rv b a" and r: "tie ?lt b a \<longrightarrow> \<not> lexb (map enc obs) b a"
    using Cons.prems(4) by (auto simp: e)
  have kb: "key_before ob a b = before ?lt ?rv a b"
    by (simp add: key_before_def before_def)
  show ?case
  proof (cases "before ?lt ?rv a b")
    case True with kb show ?thesis by simp
  next
    case False
    with nb have t: "tie ?lt a b" by (auto simp: tie_def before_def split: if_splits)
    then have ce: "cell_eq (column ob) a b" using tie_cell_eq [OF o Cons.prems(2,3)] by simp
    from t r have "\<not> lexb (map enc obs) b a" by (simp add: tie_sym)
    with Cons have "lex_before obs a b \<or> tied obs a b" by simp
    with ce show ?thesis by (auto simp: tied_def)
  qed
qed

lemma ties_tied:
  "\<forall>ob\<in>set obs. ordered_on (column ob) S \<Longrightarrow> a \<in> S \<Longrightarrow> b \<in> S \<Longrightarrow>
     ties (map enc obs) a b = tied obs a b"
  by (induction obs) (auto simp: ties_def tied_def enc_def tie_cell_eq)

lemma row_ok_cell:
  assumes "row_ok sch r" and "c \<in> set (keys sch)"
  shows "\<exists>u ty. dict_get r c = Some u \<and> dict_get sch c = Some ty \<and> validate_type u ty"
proof -
  from assms have "c \<in> set (keys r)" by (simp add: row_ok_def)
  then obtain u where u: "dict_get r c = Some u"
    using dict_get_None_iff [of r c] by (cases "dict_get r c") auto
  then have "(c, u) \<in> set r" by (auto simp: dict_get_def dest: map_of_SomeD)
  with assms(1) have "cell_ok sch (c, u)" by (auto simp: row_ok_def list_all_iff)
  with u show ?thesis by (auto simp: cell_ok_def split: option.splits)
qed

lemma collect_member:
  "collect cols w rs = Inr res \<Longrightarrow> a \<in> set res \<Longrightarrow> \<exists>r\<in>set rs. project r cols [] = Inr a"
  by (induction rs arbitrary: res) (auto split: if_splits sum.splits)

lemma sort_keys_length: "sort_keys c xs = Inr ks \<Longrightarrow> length ks = length xs"
  by (induction xs arbitrary: ks) (auto split: option.splits sum.splits)

lemma sort_keys_missing:
  "xs \<noteq> [] \<Longrightarrow> \<forall>x\<in>set xs. c \<notin> set (keys x) \<Longrightarrow> sort_keys c xs = Inl (KeyError c)"
proof -
  assume a: "xs \<noteq> []" "\<forall>x\<in>set xs. c \<notin> set (keys x)"
  then obtain x xs' where x: "xs = x # xs'" by (cases xs) auto
  with a have "dict_get x c = None" by (simp add: dict_get_None_iff)
  with x show ?thesis by simp
qed

lemma list_sort_mset: "list_sort c rv xs = Inr ys \<Longrightarrow> mset ys = mset xs"
proof -
  assume a: "list_sort c rv xs = Inr ys"
  then obtain ks where ks: "sort_keys c xs = Inr ks"
    by (auto simp: list_sort_def split: sum.splits)
  then have l: "length ks = length xs" by (rule sort_keys_length)
  from a ks have "ys = map snd (pass key_lt rv (zip ks xs))"
    by (auto simp: list_sort_def pass_def Let_def split: if_splits)
  then have "mset ys = image_mset snd (mset (pass key_lt rv (zip ks xs)))" by simp
  also have "\<dots> = image_mset snd (mset (zip ks xs))" by (simp only: mset_pass)
  also have "\<dots> = mset (map snd (zip ks xs))" by simp
  also have "\<dots> = mset xs" using l by simp
  finally show ?thesis .
qed

lemma sort_passes_missing:
  "\<exists>ob\<in>set ps. column ob \<notin> set cols \<Longrightarrow> xs \<noteq> [] \<Longrightarrow> \<forall>x\<in>set xs. set (keys x) = set cols \<Longrightarrow>
     \<exists>e. sort_passes ps xs = Inl e"
proof (induction ps arbitrary: xs)
  case Nil then show ?case by simp
next
  case (Cons p ps)
  show ?case
  proof (cases "list_sort (column p) (direction p = ''DESC'') xs")
    case (Inl e) then show ?thesis by simp
  next
    case (Inr ys)
    from list_sort_mset [OF Inr] have m: "mset ys = mset xs" .
    then have s: "set ys = set xs" by (rule mset_eq_setD)
    from m Cons.prems(2) have ne: "ys \<noteq> []" by auto
    have "column p \<in> set cols"
    proof (rule ccontr)
      assume "column p \<notin> set cols"
      then have "sort_keys (column p) xs = Inl (KeyError (column p))"
        using Cons.prems by (intro sort_keys_missing) auto
      with Inr show False by (simp add: list_sort_def)
    qed
    with Cons.prems(1) have "\<exists>ob\<in>set ps. column ob \<notin> set cols" by auto
    from Cons.IH [OF this ne] s Cons.prems(3) Inr show ?thesis by simp
  qed
qed


lemma proj_ordered:
  assumes "table_ok t" and "set cols \<subseteq> set (keys (schema t))"
    and "collect cols w (rows t) = Inr proj" and "c \<in> set cols"
  shows "ordered_on c (set proj)"
  unfolding ordered_on_def
proof (intro ballI)
  have cell: "\<And>a. a \<in> set proj \<Longrightarrow>
      \<exists>u ty. dict_get a c = Some u \<and> dict_get (schema t) c = Some ty \<and> validate_type u ty"
  proof -
    fix a assume a: "a \<in> set proj"
    from collect_member [OF assms(3) a] obtain r where r: "r \<in> set (rows t)"
      and p: "project r cols [] = Inr a" by blast
    from r assms(1) have "row_ok (schema t) r" by (simp add: table_ok_def list_all_iff)
    from row_ok_cell [OF this] assms(2,4)
    obtain u ty where "dict_get r c = Some u" "dict_get (schema t) c = Some ty" "validate_type u ty"
      by blast
    moreover from project_Inr [OF p] assms(4) have "dict_get a c = dict_get r c" by simp
    ultimately show "\<exists>u ty. dict_get a c = Some u \<and> dict_get (schema t) c = Some ty \<and> validate_type u ty"
      by simp
  qed
  fix a b assume a: "a \<in> set proj" and b: "b \<in> set proj"
  from cell [OF a] obtain u ty where u: "dict_get a c = Some u"
    "dict_get (schema t) c = Some ty" "validate_type u ty" by blast
  from cell [OF b] obtain v ty' where v: "dict_get b c = Some v"
    "dict_get (schema t) c = Some ty'" "validate_type v ty'" by blast
  from u v have "py_lt u v \<noteq> None" using validate_type_ordered [of u ty v] by auto
  with u v show "\<exists>u v. dict_get a c = Some u \<and> dict_get b c = Some v \<and> py_lt u v \<noteq> None"
    by blast
qed

lemma sort_passes_missing_key:
  "\<exists>ob\<in>set ps. column ob \<notin> set cols \<Longrightarrow> xs \<noteq> [] \<Longrightarrow> \<forall>x\<in>set xs. set (keys x) = set cols \<Longrightarrow>
   \<forall>c\<in>set cols. ordered_on c (set xs) \<Longrightarrow>
     \<exists>ob\<in>set ps. column ob \<notin> set cols \<and> sort_passes ps xs = Inl (KeyError (column ob))"
proof (induction ps arbitrary: xs)
  case Nil then show ?case by simp
next
  case (Cons p ps)
  show ?case
  proof (cases "column p \<in> set cols")
    case False
    then have "sort_keys (column p) xs = Inl (KeyError (column p))"
      using Cons.prems by (intro sort_keys_missing) auto
    with False show ?thesis by (simp add: list_sort_def)
  next
    case True
    let ?ys = "pass (cell_lt (column p)) (direction p = ''DESC'') xs"
    have 1: "list_sort (column p) (direction p = ''DESC'') xs = Inr ?ys"
      using Cons.prems(4) True by (intro list_sort_pass) simp
    have s: "set ?ys = set xs" by (simp add: set_pass)
    have ne: "?ys \<noteq> []" using s Cons.prems(2) by (metis set_empty)
    from True Cons.prems(1) have "\<exists>ob\<in>set ps. column ob \<notin> set cols" by auto
    from Cons.IH [OF this ne] s Cons.prems(3,4) 1 show ?thesis by simp
  qed
qed

text \<open>
  Claim C2 (as amended). On a table whose rows satisfy the row invariant, with schema columns
  projected and every ordering column among them, select with an order specification
  returns the surviving projected rows rearranged by the passes of \<open>sort_passes\<close> (one
  stable pass per key, from the last key to the first). The result is sorted by the
  multi-key order: each row is before, or tied with, every row after it. Rows tied on all
  the keys stand in the order they had before sorting. In particular the three rows
  (a=1,b=2), (a=1,b=1), (a=2,b=1) under \<^verbatim>\<open>ORDER BY a ASC, b DESC\<close> come out in that same
  order.
\<close>

theorem Table_select_order_by:
  assumes "table_ok t"
    and "set (result_columns t columns) \<subseteq> set (keys (schema t))"
    and "\<forall>ob\<in>set obs. column ob \<in> set (result_columns t columns)"
  shows "(\<exists>proj res.
     Table_select t columns w None = Inr proj \<and>
     Table_select t columns w (Some obs) = Inr res \<and>
     (obs \<noteq> [] \<longrightarrow> sort_passes (rev obs) proj = Inr res) \<and>
     mset res = mset proj \<and>
     sorted_wrt (\<lambda>a b. lex_before obs a b \<or> tied obs a b) res \<and>
     (\<forall>x\<in>set res. filter (tied obs x) res = filter (tied obs x) proj)) \<and>
   Table_select ab_table None None (Some ab_order) =
     Inr [[(''a'', IntV 1), (''b'', IntV 2)],
          [(''a'', IntV 1), (''b'', IntV 1)],
          [(''a'', IntV 2), (''b'', IntV 1)]]"
proof (intro conjI)
  show "Table_select ab_table None None (Some ab_order) =
     Inr [[(''a'', IntV 1), (''b'', IntV 2)],
          [(''a'', IntV 1), (''b'', IntV 1)],
          [(''a'', IntV 2), (''b'', IntV 1)]]"
    by (auto simp: eval_defs ab_table_def ab_order_def)
  let ?cols = "result_columns t columns"
  have "\<forall>r\<in>set (rows t). set ?cols \<subseteq> set (keys r)"
    using assms(1,2) by (auto simp: table_ok_def row_ok_def list_all_iff)
  from collect_total [OF this] obtain proj where proj: "collect ?cols w (rows t) = Inr proj" by blast
  let ?S = "set proj"
  have ord: "\<forall>ob\<in>set obs. ordered_on (column ob) ?S"
    using proj_ordered [OF assms(1,2) proj] assms(3) by blast
  let ?res = "passes (rev (map enc obs)) proj"
  have sp: "sort_passes (rev obs) proj = Inr ?res"
    using sort_passes_passes [of "rev obs" ?S proj] ord by (simp add: rev_map)
  have sel: "Table_select t columns w (Some obs) = Inr ?res"
  proof (cases "obs = []")
    case True then show ?thesis by (simp add: Table_select_def proj)
  next
    case False then show ?thesis by (simp add: Table_select_def proj sp)
  qed
  have S: "set ?res = ?S" by (simp add: set_passes)
  have sw: "\<forall>p\<in>set (map enc obs). swo ?S (fst p)"
    using ord by (auto simp: enc_def intro: swo_cell_lt)
  from passes_sorted_stable [OF sw, of proj]
  have srt: "sorted_wrt (\<lambda>a b. \<not> lexb (map enc obs) b a) ?res"
    and stb: "\<forall>x\<in>?S. filter (ties (map enc obs) x) ?res = filter (ties (map enc obs) x) proj"
    by simp_all
  have 1: "sorted_wrt (\<lambda>a b. lex_before obs a b \<or> tied obs a b) ?res"
  proof (rule sorted_wrt_mono_rel [OF _ srt])
    fix a b assume "a \<in> set ?res" "b \<in> set ?res" "\<not> lexb (map enc obs) b a"
    then show "lex_before obs a b \<or> tied obs a b"
      using lexb_lex [OF ord, of a b] S by simp
  qed
  have 2: "\<forall>x\<in>set ?res. filter (tied obs x) ?res = filter (tied obs x) proj"
  proof
    fix x assume "x \<in> set ?res"
    then have x: "x \<in> ?S" using S by simp
    have "filter (tied obs x) ?res = filter (ties (map enc obs) x) ?res"
      by (rule filter_cong) (use ties_tied [OF ord x] S in auto)
    also have "\<dots> = filter (ties (map enc obs) x) proj" using stb x by simp
    also have "\<dots> = filter (tied obs x) proj"
      by (rule filter_cong) (use ties_tied [OF ord x] in auto)
    finally show "filter (tied obs x) ?res = filter (tied obs x) proj" .
  qed
  have "Table_select t columns w None = Inr proj" by (simp add: Table_select_def proj)
  with sel sp 1 2 show "\<exists>proj res.
     Table_select t columns w None = Inr proj \<and>
     Table_select t columns w (Some obs) = Inr res \<and>
     (obs \<noteq> [] \<longrightarrow> sort_passes (rev obs) proj = Inr res) \<and>
     mset res = mset proj \<and>
     sorted_wrt (\<lambda>a b. lex_before obs a b \<or> tied obs a b) res \<and>
     (\<forall>x\<in>set res. filter (tied obs x) res = filter (tied obs x) proj)"
    by (auto simp: mset_passes)
qed

theorem Table_select_order_by_witness:
  "table_ok ba_table \<and>
   set (result_columns ba_table None) \<subseteq> set (keys (schema ba_table)) \<and>
   list_all (\<lambda>ob. column ob \<in> set (result_columns ba_table None)) ab_order \<and>
   Table_select ba_table None None (Some ab_order) =
     Inr [[(''a'', IntV 1), (''b'', IntV 2)],
          [(''a'', IntV 1), (''b'', IntV 1)],
          [(''a'', IntV 2), (''b'', IntV 1)],
          [(''a'', IntV 2), (''b'', IntV 1)]] \<and>
   (\<exists>proj res.
     Table_select ba_table None None None = Inr proj \<and>
     Table_select ba_table None None (Some ab_order) = Inr res \<and>
     mset res = mset proj \<and>
     sorted_wrt (\<lambda>a b. lex_before ab_order a b \<or> tied ab_order a b) res \<and>
     (\<forall>x\<in>set res. filter (tied ab_order x) res = filter (tied ab_order x) proj))"
proof -
  have h1: "table_ok ba_table"
    by (simp add: table_ok_def row_ok_def cell_ok_def ba_table_def keys_def dict_get_def insert_commute)
  have h2: "set (result_columns ba_table None) \<subseteq> set (keys (schema ba_table))"
    by (simp add: result_columns_def)
  have h3: "\<forall>ob\<in>set ab_order. column ob \<in> set (result_columns ba_table None)"
    by (simp add: result_columns_def ab_order_def ba_table_def keys_def)
  have e: "Table_select ba_table None None (Some ab_order) =
     Inr [[(''a'', IntV 1), (''b'', IntV 2)],
          [(''a'', IntV 1), (''b'', IntV 1)],
          [(''a'', IntV 2), (''b'', IntV 1)],
          [(''a'', IntV 2), (''b'', IntV 1)]]"
    by (auto simp: eval_defs ba_table_def ab_order_def)
  have h3': "list_all (\<lambda>ob. column ob \<in> set (result_columns ba_table None)) ab_order"
    using h3 by (simp add: list_all_iff)
  from Table_select_order_by [OF h1 h2 h3, of None] h1 h2 h3' e show ?thesis by blast
qed

text \<open>
  Claim C2 as stated fails for an order specification that names a column outside the
  projection: on the table of the example, with only \<^verbatim>\<open>a\<close> projected, the order
  \<^verbatim>\<open>ORDER BY a ASC, b DESC\<close> does not sort the rows, the first pass (on \<^verbatim>\<open>b\<close>) raising a
  \<open>KeyError\<close>.
\<close>

theorem Table_select_order_by_counterexample:
  "table_ok ab_table \<and>
   Table_select ab_table (Some [''a'']) None None = Inr [[(''a'', IntV 1)], [(''a'', IntV 1)], [(''a'', IntV 2)]] \<and>
   Table_select ab_table (Some [''a'']) None (Some ab_order) = Inl (KeyError ''b'')"
  by code_simp

lemma select_order_missing:
  assumes "ob \<in> set obs" and "column ob \<notin> set (result_columns t (Some columns))"
    and "list_ex (matches w) (rows t)" and "dict_get (tables db) table_name = Some t"
  shows "\<exists>e. Table_select t (Some columns) w (Some obs) = Inl e \<and>
     handle_select_try db table_name columns w (Some obs) = [P_error e] \<and>
     (table_ok t \<and> set (result_columns t (Some columns)) \<subseteq> set (keys (schema t)) \<longrightarrow>
        (\<exists>ob'\<in>set obs. column ob' \<notin> set (result_columns t (Some columns)) \<and>
           e = KeyError (column ob')))"
proof (cases "collect (result_columns t (Some columns)) w (rows t)")
  case (Inl e)
  have "\<not> (table_ok t \<and> set (result_columns t (Some columns)) \<subseteq> set (keys (schema t)))"
  proof
    assume h: "table_ok t \<and> set (result_columns t (Some columns)) \<subseteq> set (keys (schema t))"
    then have "\<forall>r\<in>set (rows t). set (result_columns t (Some columns)) \<subseteq> set (keys r)"
      by (auto simp: table_ok_def row_ok_def list_all_iff)
    from collect_total [OF this, of w] Inl show False by auto
  qed
  with Inl assms(4) show ?thesis by (auto simp: Table_select_def handle_select_try_def)
next
  case (Inr res)
  let ?cols = "result_columns t (Some columns)"
  from collect_Inr [OF Inr] have l: "list_all2 (\<lambda>r r'. project r ?cols [] = Inr r')
     (filter (matches w) (rows t)) res" .
  have "filter (matches w) (rows t) \<noteq> []" using assms(3) by (auto simp: list_ex_iff filter_empty_conv)
  with l have ne: "res \<noteq> []" by (auto simp: list_all2_Nil2)
  have k: "\<forall>x\<in>set res. set (keys x) = set ?cols"
  proof
    fix x assume "x \<in> set res"
    from collect_member [OF Inr this] obtain r where "project r ?cols [] = Inr x" by blast
    from project_Inr [OF this] show "set (keys x) = set ?cols"
      by (simp add: keys_def)
  qed
  have m: "\<exists>ob\<in>set (rev obs). column ob \<notin> set ?cols"
    using assms(1,2) by auto
  from sort_passes_missing [OF m ne k] obtain e where e: "sort_passes (rev obs) res = Inl e" by blast
  have "table_ok t \<and> set ?cols \<subseteq> set (keys (schema t)) \<longrightarrow>
        (\<exists>ob'\<in>set obs. column ob' \<notin> set ?cols \<and> e = KeyError (column ob'))"
  proof
    assume h: "table_ok t \<and> set ?cols \<subseteq> set (keys (schema t))"
    then have "\<forall>c\<in>set ?cols. ordered_on c (set res)"
      using proj_ordered [OF _ _ Inr] by blast
    from sort_passes_missing_key [OF m ne k this] e
    show "\<exists>ob'\<in>set obs. column ob' \<notin> set ?cols \<and> e = KeyError (column ob')" by auto
  qed
  moreover have "obs \<noteq> []" using assms(1) by auto
  ultimately show ?thesis using Inr assms(4) e
    by (simp add: Table_select_def handle_select_try_def)
qed

section \<open>Properties of the statement handlers\<close>

lemma parse_value_not_None: "parse_value fl s \<noteq> Inr NoneV"
  by (auto simp: parse_value_def strptime_date_def strptime_time_def Let_def
           split: option.splits list.splits if_splits sum.splits)

lemma py_eq_NoneV: "py_eq NoneV v = (v = NoneV)"
  by (cases v) auto

lemma row_get_missing: "col \<notin> set (keys r) \<Longrightarrow> row_get r col = NoneV"
  using dict_get_None_iff [of r col] by (simp add: row_get_def)

lemma collect_no_match: "\<forall>r\<in>set rs. \<not> matches w r \<Longrightarrow> collect cols w rs = Inr []"
  by (induction rs) auto

lemma update_rows_no_match:
  "\<forall>r\<in>set rs. \<not> matches w r \<Longrightarrow> update_rows sch updates w rs cnt = (Inr cnt, rs)"
  by (induction rs) auto

lemma list_sort_Nil: "list_sort c rv [] = Inr []"
  by (simp add: list_sort_def stable_sort_def)

lemma sort_passes_Nil: "sort_passes ps [] = Inr []"
  by (induction ps) (simp_all add: list_sort_Nil)

text \<open>
  Claim C9. When a condition parses as \<^verbatim>\<open>col = literal\<close>, the predicate that
  \<open>parse_where\<close> returns is false, without an error, on every row that has no column
  \<^verbatim>\<open>col\<close>: the lookup gives \<^verbatim>\<open>None\<close>, which no parsed literal equals. On a table none of
  whose rows has that column, select returns no row, update changes nothing and counts
  0, and delete removes nothing and counts 0. A condition whose pattern matches yields
  such a predicate whenever its literal is read without an error; when the literal is
  refused (an integer of more than 4300 digits), \<open>parse_where\<close> raises the same error and
  there is no predicate.
\<close>

theorem parse_where_missing_column:
  assumes "condition_str \<noteq> []"
    and "re_match where_re (strip condition_str) = Some g"
    and "\<forall>r\<in>set (rows t). match_group g 1 \<notin> set (keys r)"
  shows "case parse_value float_of (strip (match_group g 2)) of
      Inl e \<Rightarrow> parse_where float_of condition_str = Inl e
    | Inr val \<Rightarrow>
       (\<exists>p. parse_where float_of condition_str = Inr ([], Some p) \<and>
          (\<forall>r. match_group g 1 \<notin> set (keys r) \<longrightarrow> \<not> p r) \<and>
          Table_select t columns (Some p) order_by = Inr [] \<and>
          Table_update t updates (Some p) = (Inr 0, t) \<and>
          Table_delete t (Some p) = (0, t))"
proof (cases "parse_value float_of (strip (match_group g 2))")
  case (Inl e)
  then show ?thesis using assms(1,2) by (simp add: parse_where_def Let_def)
next
  case (Inr val)
  let ?p = "\<lambda>r. py_eq (row_get r (match_group g 1)) val"
  have pw: "parse_where float_of condition_str = Inr ([], Some ?p)"
    using assms(1,2) Inr by (simp add: parse_where_def Let_def)
  have "val \<noteq> NoneV" using parse_value_not_None [of float_of "strip (match_group g 2)"] Inr by auto
  then have np: "\<And>r. match_group g 1 \<notin> set (keys r) \<Longrightarrow> \<not> ?p r"
    by (simp add: row_get_missing py_eq_NoneV)
  then have nm: "\<forall>r\<in>set (rows t). \<not> matches (Some ?p) r"
    using assms(3) by (simp add: matches_def)
  have s: "Table_select t columns (Some ?p) order_by = Inr []"
    unfolding Table_select_def collect_no_match [OF nm]
    by (simp add: sort_passes_Nil split: option.splits)
  have u: "Table_update t updates (Some ?p) = (Inr 0, t)"
    unfolding Table_update_def update_rows_no_match [OF nm] by simp
  have "filter (\<lambda>r. \<not> ?p r) (rows t) = rows t"
    using assms(3) np by (auto simp: filter_id_conv)
  then have d: "Table_delete t (Some ?p) = (0, t)"
    by (simp add: Table_delete_def)
  from pw np s u d have "\<exists>p. parse_where float_of condition_str = Inr ([], Some p) \<and>
          (\<forall>r. match_group g 1 \<notin> set (keys r) \<longrightarrow> \<not> p r) \<and>
          Table_select t columns (Some p) order_by = Inr [] \<and>
          Table_update t updates (Some p) = (Inr 0, t) \<and>
          Table_delete t (Some p) = (0, t)" by blast
  with Inr show ?thesis by simp
qed

theorem parse_where_missing_column_witness:
  "''zip = 1'' \<noteq> [] \<and>
   re_match where_re (strip ''zip = 1'') = Some [(2, ''1''), (1, ''zip'')] \<and>
   list_all (\<lambda>r. match_group [(2, ''1''), (1, ''zip'')] 1 \<notin> set (keys r)) (rows person) \<and>
   parse_value float_zero (strip (match_group [(2, ''1''), (1, ''zip'')] 2)) = Inr (IntV 1) \<and>
   (\<exists>p. parse_where float_zero ''zip = 1'' = Inr ([], Some p) \<and>
     Table_select person None (Some p) None = Inr [] \<and>
     Table_update person [(''id'', IntV 9)] (Some p) = (Inr 0, person) \<and>
     Table_delete person (Some p) = (0, person))"
proof -
  have h1: "''zip = 1'' \<noteq> []" by simp
  have h2: "re_match where_re (strip ''zip = 1'') = Some [(2, ''1''), (1, ''zip'')]" by code_simp
  have h3: "list_all (\<lambda>r. match_group [(2, ''1''), (1, ''zip'')] 1 \<notin> set (keys r)) (rows person)"
    by code_simp
  then have h3': "\<forall>r\<in>set (rows person). match_group [(2, ''1''), (1, ''zip'')] 1 \<notin> set (keys r)"
    by (simp add: list_all_iff)
  have v: "parse_value float_zero (strip (match_group [(2, ''1''), (1, ''zip'')] 2)) = Inr (IntV 1)"
    by code_simp
  from parse_where_missing_column [OF h1 h2 h3', of float_zero None None "[(''id'', IntV 9)]"]
  have "\<exists>p. parse_where float_zero ''zip = 1'' = Inr ([], Some p) \<and>
     (\<forall>r. match_group [(2, ''1''), (1, ''zip'')] 1 \<notin> set (keys r) \<longrightarrow> \<not> p r) \<and>
     Table_select person None (Some p) None = Inr [] \<and>
     Table_update person [(''id'', IntV 9)] (Some p) = (Inr 0, person) \<and>
     Table_delete person (Some p) = (0, person)"
    unfolding v by simp
  with h1 h2 h3 v show ?thesis by blast
qed

lemma dict_set_same: "dict_get d k = Some v \<Longrightarrow> dict_set d k v = d"
  by (induction d) (auto simp: dict_get_def split: if_splits)

text \<open>
  Claim C1 (what the code does). With no predicate, \<open>Table_delete\<close> keeps every row and
  returns the count 0: the test \<^verbatim>\<open>where(row) if where else False\<close> is false for each row,
  so no row is removed, where \<open>Table_select\<close> and \<open>Table_update\<close> take a missing predicate
  as matching every row. A \<^verbatim>\<open>DELETE FROM\<close> statement without a \<^verbatim>\<open>WHERE\<close> clause therefore
  prints a count of 0 and saves the database as it was.
\<close>

theorem Table_delete_no_predicate:
  "Table_delete t None = (0, t) \<and>
   (dict_get (tables db) table_name = Some t \<longrightarrow>
      handle_delete_try float_of db table_name None =
        Inr ([P_deleted 0, P_saved], db, Some (Some (json_dump (Database_to_dict db)))))"
  by (simp add: handle_delete_try_def Table_delete_def save_to_file_def dict_set_same)

theorem Table_delete_no_predicate_witness:
  "Table_delete person None = (0, person) \<and>
   length (rows person) = 2 \<and>
   dict_get (tables person_db) ''person'' = Some person \<and>
   handle_delete_try float_zero person_db ''person'' None =
     Inr ([P_deleted 0, P_saved], person_db, Some (Some (json_dump (Database_to_dict person_db))))"
proof -
  have h: "dict_get (tables person_db) ''person'' = Some person"
    by (simp add: person_db_def dict_get_def)
  have "length (rows person) = 2" by (simp add: person_def)
  with h Table_delete_no_predicate [of person person_db "''person''" float_zero]
  show ?thesis by simp
qed

lemma parse_where_out:
  "parse_where float_of x = Inr (out, w) \<Longrightarrow> out = [] \<or> (out = [P_where_rejected] \<and> w = None)"
  by (auto simp: parse_where_def Let_def split: if_splits option.splits sum.splits)

lemma handle_select_parse_out:
  assumes "handle_select_parse float_of query = Inr (Some (out, table_name, columns, w, order_by))"
  shows "out = [] \<or> (out = [P_where_rejected] \<and> w = None)"
  using assms
  by (auto simp: handle_select_parse_def Let_def split: option.splits sum.splits
           dest: parse_where_out)

text \<open>
  Claim C10 (as amended). When some key of the order names a column that is not among
  the projected columns and at least one row matches the predicate, select returns an
  error and no rows, and the \<^verbatim>\<open>try\<close> block of the handler prints that error as its only
  line. For every \<^verbatim>\<open>SELECT\<close> statement that is read as such a select, the handler prints
  what \<^verbatim>\<open>parse_where\<close> printed and then that error line, and no result row: the error
  line is the whole output when the statement has no \<^verbatim>\<open>WHERE\<close> clause or one of the form
  \<^verbatim>\<open>col = value\<close>, and it follows the line \<^verbatim>\<open>col = value only\<close> when the clause is rejected
  (the select then runs without a predicate). On a table whose rows satisfy the row
  invariant, with schema columns projected, the error is the \<open>KeyError\<close> of the sort-key
  lookup for such a column.
\<close>

theorem Table_select_order_column_not_projected:
  assumes "ob \<in> set obs" and "column ob \<notin> set (result_columns t (Some columns))"
    and "list_ex (matches w) (rows t)" and "dict_get (tables db) table_name = Some t"
  shows "\<exists>e. Table_select t (Some columns) w (Some obs) = Inl e \<and>
     handle_select_try db table_name columns w (Some obs) = [P_error e] \<and>
     (\<forall>float_of query out.
        handle_select_parse float_of query = Inr (Some (out, table_name, columns, w, Some obs)) \<longrightarrow>
          handle_select float_of db query = Inr (out @ [P_error e]) \<and>
          (out = [] \<or> (out = [P_where_rejected] \<and> w = None))) \<and>
     (table_ok t \<and> set (result_columns t (Some columns)) \<subseteq> set (keys (schema t)) \<longrightarrow>
        (\<exists>ob'\<in>set obs. column ob' \<notin> set (result_columns t (Some columns)) \<and>
           e = KeyError (column ob')))"
proof -
  from select_order_missing [OF assms] obtain e
    where e: "Table_select t (Some columns) w (Some obs) = Inl e"
      "handle_select_try db table_name columns w (Some obs) = [P_error e]"
      "table_ok t \<and> set (result_columns t (Some columns)) \<subseteq> set (keys (schema t)) \<longrightarrow>
        (\<exists>ob'\<in>set obs. column ob' \<notin> set (result_columns t (Some columns)) \<and>
           e = KeyError (column ob'))"
    by blast
  have "\<forall>float_of query out.
        handle_select_parse float_of query = Inr (Some (out, table_name, columns, w, Some obs)) \<longrightarrow>
          handle_select float_of db query = Inr (out @ [P_error e]) \<and>
          (out = [] \<or> (out = [P_where_rejected] \<and> w = None))"
    using e(2) handle_select_parse_out by (auto simp: handle_select_def)
  with e show ?thesis by blast
qed

theorem Table_select_order_column_not_projected_witness:
  "\<lparr>column = ''name'', direction = ''ASC''\<rparr> \<in> set [\<lparr>column = ''name'', direction = ''ASC''\<rparr>] \<and>
   column \<lparr>column = ''name'', direction = ''ASC''\<rparr> \<notin> set (result_columns person (Some [''id''])) \<and>
   list_ex (matches None) (rows person) \<and>
   dict_get (tables person_db) ''person'' = Some person \<and>
   handle_select_parse float_zero ''SELECT id FROM person ORDER BY name'' =
     Inr (Some ([], ''person'', [''id''], None, Some [\<lparr>column = ''name'', direction = ''ASC''\<rparr>])) \<and>
   Table_select person (Some [''id'']) None (Some [\<lparr>column = ''name'', direction = ''ASC''\<rparr>]) =
     Inl (KeyError ''name'') \<and>
   handle_select_try person_db ''person'' [''id''] None (Some [\<lparr>column = ''name'', direction = ''ASC''\<rparr>]) =
     [P_error (KeyError ''name'')] \<and>
   handle_select float_zero person_db ''SELECT id FROM person ORDER BY name'' =
     Inr [P_error (KeyError ''name'')]"
proof -
  let ?ob = "\<lparr>column = ''name'', direction = ''ASC''\<rparr>"
  let ?q = "''SELECT id FROM person ORDER BY name''"
  have h1: "?ob \<in> set [?ob]" by simp
  have h2: "column ?ob \<notin> set (result_columns person (Some [''id'']))"
    by (simp add: result_columns_def)
  have h3: "list_ex (matches None) (rows person)" by (simp add: matches_def person_def)
  have h4: "dict_get (tables person_db) ''person'' = Some person"
    by (simp add: person_db_def dict_get_def)
  have r: "re_match select_re ?q = Some [(4, ''name''), (2, ''person''), (1, ''id'')]" by code_simp
  have o: "parse_order_by ''name'' = Inr [?ob]" by code_simp
  have c: "select_columns ''id'' = [''id'']" by code_simp
  have h5: "handle_select_parse float_zero ?q = Inr (Some ([], ''person'', [''id''], None, Some [?ob]))"
    by (simp add: handle_select_parse_def r o c match_group_def)
  have e: "Table_select person (Some [''id'']) None (Some [?ob]) = Inl (KeyError ''name'')"
    by (auto simp: eval_defs person_def)
  from Table_select_order_column_not_projected [OF h1 h2 h3 h4] e h1 h2 h3 h4 h5
  show ?thesis by auto
qed

text \<open>
  Claim C10 as stated fails at the statement level: the statement
  \<^verbatim>\<open>SELECT id FROM person WHERE = 1 ORDER BY name\<close> orders by a column that is not projected
  and both rows survive, yet two lines are printed and not a single diagnostic: the line
  of the rejected \<^verbatim>\<open>WHERE\<close> clause and then the error.
\<close>

theorem handle_select_two_lines_counterexample:
  "Table_select person (Some [''id'']) None (Some [\<lparr>column = ''name'', direction = ''ASC''\<rparr>]) =
     Inl (KeyError ''name'') \<and>
   list_ex (matches None) (rows person) \<and>
   handle_select float_zero person_db ''SELECT id FROM person WHERE = 1 ORDER BY name'' =
     Inr [P_where_rejected, P_error (KeyError ''name'')]"
  by code_simp

section \<open>Properties of the persistence codec\<close>

lemma foldl_dict_set_distinct:
  "distinct (map fst acc @ map fst items) \<Longrightarrow>
     foldl (\<lambda>d kv. dict_set d (fst kv) (snd kv)) acc items = acc @ items"
proof (induction items arbitrary: acc)
  case Nil then show ?case by simp
next
  case (Cons kv items)
  have "dict_set acc (fst kv) (snd kv) = acc @ [kv]"
    using Cons.prems by (simp add: dict_set_fresh keys_def)
  moreover have "distinct (map fst (acc @ [kv]) @ map fst items)" using Cons.prems by simp
  ultimately show ?case using Cons.IH [of "acc @ [kv]"] by simp
qed

lemma dict_of_distinct: "distinct (map fst items) \<Longrightarrow> dict_of items = items"
  using foldl_dict_set_distinct [of "[]" items] by (simp add: dict_of_def)

lemma json_roundtrip: "plain_obj obj \<Longrightarrow> json_load (json_dump obj) = obj"
proof (induction obj)
  case (Val v)
  then show ?case by (cases v) (simp_all add: plain_value_def)
next
  case (List xs)
  then have "map (json_load \<circ> json_dump) xs = xs"
    by (intro map_idI) (auto simp: list_all_iff)
  then show ?case by simp
next
  case (Dict kvs)
  have "map (\<lambda>kv. (fst kv, json_load (json_dump (snd kv)))) kvs = kvs"
  proof (intro map_idI)
    fix kv assume kv: "kv \<in> set kvs"
    obtain k v where e: "kv = (k, v)" by (cases kv)
    from kv Dict.prems have "plain_obj (snd kv)" by (simp add: list_all_iff)
    with kv e have "json_load (json_dump v) = v"
      using Dict.IH [of "(k, v)" v] by simp
    with e show "(fst kv, json_load (json_dump (snd kv))) = kv" by simp
  qed
  moreover have "distinct (map fst kvs)" using Dict.prems by simp
  ultimately show ?case by (simp add: comp_def dict_of_distinct)
qed

lemma DataType_of_value: "DataType_of (DataType_value ty) = Some ty"
  by (cases ty) (simp_all add: DataType_of_def)

lemma sequence_map_Some: "(\<And>x. x \<in> set xs \<Longrightarrow> f x = Some (g x)) \<Longrightarrow> sequence (map f xs) = Some (map g xs)"
  by (induction xs) auto

lemma Table_from_to_dict:
  assumes "distinct (keys (schema t))"
  shows "Table_from_dict (Table_to_dict t) = Some t"
proof -
  have 1: "sequence (map (schema_entry \<circ> (\<lambda>cd. (fst cd, Val (StrV (DataType_value (snd cd)))))) (schema t))
        = Some (schema t)"
    using sequence_map_Some [of "schema t" "schema_entry \<circ> (\<lambda>cd. (fst cd, Val (StrV (DataType_value (snd cd)))))" id]
    by (simp add: schema_entry_def DataType_of_value comp_def)
  have r: "\<And>r. row_of (Dict (map (\<lambda>cv. (fst cv, Val (snd cv))) r)) = Some r"
  proof -
    fix r :: row
    show "row_of (Dict (map (\<lambda>cv. (fst cv, Val (snd cv))) r)) = Some r"
      using sequence_map_Some [of r "cell_entry \<circ> (\<lambda>cv. (fst cv, Val (snd cv)))" id]
      by (simp add: row_of_def cell_entry_def comp_def)
  qed
  have 2: "sequence (map (row_of \<circ> (\<lambda>r. Dict (map (\<lambda>cv. (fst cv, Val (snd cv))) r))) (rows t)) = Some (rows t)"
    using sequence_map_Some [of "rows t" "row_of \<circ> (\<lambda>r. Dict (map (\<lambda>cv. (fst cv, Val (snd cv))) r))" id] r
    by (simp add: comp_def)
  have 3: "dict_of (schema t) = schema t" using assms by (simp add: dict_of_distinct keys_def)
  show ?thesis
    by (simp add: Table_from_dict_def Table_to_dict_def dict_get_def 1 2 3)
qed

lemma load_tables_all:
  "distinct (keys (tables db0) @ keys ts) \<Longrightarrow> list_all (\<lambda>nt. distinct (keys (schema (snd nt)))) ts \<Longrightarrow>
     load_tables db0 (map (\<lambda>nt. (fst nt, Table_to_dict (snd nt))) ts) =
       ([P_loaded], db0\<lparr>tables := tables db0 @ ts\<rparr>)"
proof (induction ts arbitrary: db0)
  case Nil then show ?case by simp
next
  case (Cons nt ts)
  obtain n t where nt: "nt = (n, t)" by (cases nt)
  have f: "Table_from_dict (Table_to_dict t) = Some t"
    using Cons.prems(2) nt by (simp add: Table_from_to_dict)
  have s: "dict_set (tables db0) n t = tables db0 @ [(n, t)]"
    using Cons.prems(1) nt by (simp add: dict_set_fresh keys_def)
  let ?db1 = "db0\<lparr>tables := tables db0 @ [(n, t)]\<rparr>"
  have "distinct (keys (tables ?db1) @ keys ts)" using Cons.prems(1) nt by (simp add: keys_def)
  moreover have "list_all (\<lambda>nt. distinct (keys (schema (snd nt)))) ts" using Cons.prems(2) by simp
  ultimately have "load_tables ?db1 (map (\<lambda>nt. (fst nt, Table_to_dict (snd nt))) ts) =
       ([P_loaded], ?db1\<lparr>tables := tables ?db1 @ ts\<rparr>)" by (rule Cons.IH)
  with f s nt show ?case by simp
qed

lemma plain_cell:
  assumes "row_ok sch r" and "list_all (\<lambda>cd. snd cd = INTEGER \<or> snd cd = FLOAT \<or> snd cd = CHAR') sch"
    and "cv \<in> set r"
  shows "plain_value (snd cv)"
proof -
  from assms(1,3) have "cell_ok sch cv" by (simp add: row_ok_def list_all_iff)
  then obtain ty where ty: "dict_get sch (fst cv) = Some ty" "validate_type (snd cv) ty"
    by (auto simp: cell_ok_def split: option.splits)
  then have "(fst cv, ty) \<in> set sch" by (auto simp: dict_get_def dest: map_of_SomeD)
  with assms(2) have "ty = INTEGER \<or> ty = FLOAT \<or> ty = CHAR'" by (auto simp: list_all_iff)
  with ty(2) show ?thesis by (cases "snd cv") (auto simp: plain_value_def)
qed

lemma plain_Table_to_dict:
  assumes "wf_table t" and "table_ok t" and "plain_columns t"
  shows "plain_obj (Table_to_dict t)"
proof -
  have 1: "plain_obj (Dict (map (\<lambda>cd. (fst cd, Val (StrV (DataType_value (snd cd))))) (schema t)))"
    using assms(1) by (simp add: wf_table_def keys_def comp_def list_all_iff plain_value_def)
  have 2: "plain_obj (List (map (\<lambda>r. Dict (map (\<lambda>cv. (fst cv, Val (snd cv))) r)) (rows t)))"
  proof -
    have "\<And>r. r \<in> set (rows t) \<Longrightarrow> plain_obj (Dict (map (\<lambda>cv. (fst cv, Val (snd cv))) r))"
    proof -
      fix r assume r: "r \<in> set (rows t)"
      then have d: "distinct (map fst r)" using assms(1) by (simp add: wf_table_def list_all_iff keys_def)
      from r assms(2) have ok: "row_ok (schema t) r" by (simp add: table_ok_def list_all_iff)
      have "\<And>cv. cv \<in> set r \<Longrightarrow> plain_value (snd cv)"
        using plain_cell [OF ok] assms(3) by (simp add: plain_columns_def)
      with d show "plain_obj (Dict (map (\<lambda>cv. (fst cv, Val (snd cv))) r))"
        by (simp add: comp_def list_all_iff)
    qed
    then show ?thesis by (simp add: list_all_iff)
  qed
  from 1 2 show ?thesis by (simp add: Table_to_dict_def plain_value_def)
qed

text \<open>
  Claim C6. For a database whose tables declare only Integer, Float and Char columns
  and whose rows satisfy the row invariant, loading the document that save writes into
  an empty database gives the database back: the same table names in the same order,
  each with its name, its schema and its rows, value for value and in insertion order.
\<close>

theorem save_load_round_trip:
  assumes "wf_database db"
    and "list_all (\<lambda>nt. table_ok (snd nt) \<and> plain_columns (snd nt)) (tables db)"
  shows "load_from_file \<lparr>tables = []\<rparr> (snd (save_to_file db)) = ([P_loaded], db)"
proof -
  let ?ts = "map (\<lambda>nt. (fst nt, Table_to_dict (snd nt))) (tables db)"
  have "plain_obj (Dict ?ts)"
    using assms plain_Table_to_dict
    by (auto simp: wf_database_def keys_def comp_def list_all_iff)
  then have "plain_obj (Database_to_dict db)" by (simp add: Database_to_dict_def)
  then have rt: "json_load (json_dump (Database_to_dict db)) = Database_to_dict db"
    by (rule json_roundtrip)
  have "distinct (keys (tables \<lparr>tables = []\<rparr>) @ keys (tables db))"
    using assms(1) by (simp add: wf_database_def keys_def)
  moreover have "list_all (\<lambda>nt. distinct (keys (schema (snd nt)))) (tables db)"
    using assms(1) by (simp add: wf_database_def wf_table_def list_all_iff)
  ultimately have "load_tables \<lparr>tables = []\<rparr> ?ts = ([P_loaded], \<lparr>tables = []\<rparr>\<lparr>tables := [] @ tables db\<rparr>)"
    using load_tables_all [of "\<lparr>tables = []\<rparr>" "tables db"] by simp
  then have l: "load_tables \<lparr>tables = []\<rparr> ?ts = ([P_loaded], db)" by simp
  have "load_from_file \<lparr>tables = []\<rparr> (snd (save_to_file db)) =
      (case Database_to_dict db of
         Dict d \<Rightarrow>
           (case dict_get d ''tables'' of
              None \<Rightarrow> ([P_loaded], \<lparr>tables = []\<rparr>)
            | Some (Dict ts) \<Rightarrow> load_tables \<lparr>tables = []\<rparr> ts
            | Some _ \<Rightarrow> ([P_load_error], \<lparr>tables = []\<rparr>))
       | _ \<Rightarrow> ([P_load_error], \<lparr>tables = []\<rparr>))"
    by (simp add: load_from_file_def save_to_file_def rt)
  also have "\<dots> = load_tables \<lparr>tables = []\<rparr> ?ts"
    by (simp add: Database_to_dict_def dict_get_def)
  finally show ?thesis using l by simp
qed

theorem save_load_round_trip_witness:
  "wf_database person_db \<and>
   list_all (\<lambda>nt. table_ok (snd nt) \<and> plain_columns (snd nt)) (tables person_db) \<and>
   load_from_file \<lparr>tables = []\<rparr> (snd (save_to_file person_db)) = ([P_loaded], person_db)"
proof -
  have h1: "wf_database person_db"
    by (simp add: wf_database_def wf_table_def person_db_def person_def keys_def)
  have h2: "list_all (\<lambda>nt. table_ok (snd nt) \<and> plain_columns (snd nt)) (tables person_db)"
    by (simp add: person_db_def table_ok_def row_ok_def cell_ok_def plain_columns_def person_def
        keys_def dict_get_def insert_commute)
  from save_load_round_trip [OF h1 h2] h1 h2 show ?thesis by simp
qed

section \<open>Properties of the literal parser\<close>


lemma star_runs_ne: "star_runs P s \<noteq> []"
  by (induction s) auto






































lemma not_range_hyphen [simp]:
  "\<not> in_range CHR ''0'' CHR ''2'' CHR ''-''" "\<not> in_range CHR ''1'' CHR ''9'' CHR ''-''"
  "\<not> in_range CHR ''0'' CHR ''1'' CHR ''-''" "\<not> in_range CHR ''1'' CHR ''2'' CHR ''-''"
  "\<not> is_digit CHR ''-''"
  by (simp_all add: in_range_def is_digit_def)


lemma not_range_space [simp]: "\<not> in_range CHR ''1'' CHR ''9'' CHR '' ''"
  "\<not> in_range CHR ''1'' CHR ''2'' CHR '' ''"
  by (simp_all add: in_range_def)



































lemma not_range_colon [simp]:
  "\<not> in_range CHR ''0'' CHR ''3'' CHR '':''" "\<not> in_range CHR ''0'' CHR ''1'' CHR '':''"
  "\<not> in_range CHR ''0'' CHR ''5'' CHR '':''" "\<not> is_digit CHR '':''"
  "\<not> in_range CHR ''0'' CHR ''1'' CHR ''2''" "\<not> in_range CHR ''0'' CHR ''5'' CHR ''6''"
  "is_digit CHR ''2''" "is_digit CHR ''6''"
  by (simp_all add: in_range_def is_digit_def)
































end
